theory Spec2Isabelle
  imports Main "HOL-Library.Word" "HOL-Library.Product_Lexorder"
begin

unbundle bit_operations_syntax

section \<open>Machine integers\<close>

text \<open>
  The numeric prefix of a command, \<open>params.count\<close>, is a C++ \<open>int\<close>: a 32-bit
  two's-complement integer. Its decrement wraps around at the smallest value (the C++
  standard leaves that overflow undefined; the compiled code wraps).
\<close>

type_synonym cpp_int = "32 word"

section \<open>Selections, context and exceptions\<close>

text \<open>A buffer coordinate is a (line, byte column) pair, ordered lexicographically.\<close>

type_synonym ByteCoord = "int \<times> int"

record Selection =
  anchor :: ByteCoord
  cursor :: ByteCoord
  captures :: "string list"

record SelectionList =
  sels :: "Selection list"
  main_index :: nat

text \<open>
  The three exception types that normal.cc catches by name: \<open>RegexError\<close> (raised by the
  construction of a \<open>Regex\<close>), \<open>std::runtime_error\<close> (raised by the regex library while
  matching) and Kakoune's own \<open>runtime_error\<close>.
\<close>

datatype exn =
    RegexError string
  | std_runtime_error string
  | runtime_error string

text \<open>
  A command either returns or throws; in both cases the context is left in some state,
  which the outcome carries.
\<close>

datatype 's outcome = Returned 's | Threw exn 's

fun state_of :: "'s outcome \<Rightarrow> 's" where
  "state_of (Returned s) = s"
| "state_of (Threw e s) = s"

text \<open>The exception that a command let out, if any.\<close>

fun thrown :: "'s outcome \<Rightarrow> exn option" where
  "thrown (Returned s) = None"
| "thrown (Threw e s) = Some e"

datatype PromptEvent = Change | Abort | Validate

datatype Face = PromptFace | ErrorFace | InformationFace

text \<open>
  The parts of \<open>Context\<close> and of the singletons it reaches that the commands below read or
  write: the buffer (of an abstract type), the selections, the register table of
  \<open>RegisterManager\<close>, whether a user interface is attached, the \<open>incsearch\<close> option, the
  face of the prompt, the info box of the user interface (\<open>None\<close> when hidden), the jump
  list and the status line.
\<close>

record 'b Context =
  buffer :: 'b
  selections :: SelectionList
  registers :: "char \<Rightarrow> string list"
  has_ui :: bool
  incsearch :: bool
  prompt_face :: Face
  info :: "(string \<times> string) option"
  jump_list :: "SelectionList list"
  status :: "(string \<times> Face) option"

text \<open>
  Modelled from the spec: \<open>Context::set_selections\<close>, defined outside the sources. The given
  list becomes the selection set. The spec asks only that the main index be valid after a
  change of the selection count; the last selection is taken here.
\<close>

definition set_selections :: "Selection list \<Rightarrow> 'b Context \<Rightarrow> 'b Context" where
  "set_selections v context =
     context\<lparr>selections := \<lparr>sels = v, main_index = length v - 1\<rparr>\<rparr>"

text \<open>
  Modelled from the spec: \<open>Context::main_sel_register_value\<close>, defined outside the sources.
  A register holds one string per selection; with fewer values than selections the last
  value repeats, and a register without values reads as the empty string.
\<close>

definition main_sel_register_value :: "'b Context \<Rightarrow> char \<Rightarrow> string" where
  "main_sel_register_value context reg =
     (let vs = registers context reg; i = main_index (selections context)
      in if vs = [] then [] else if i < length vs then vs ! i else last vs)"

text \<open>
  Modelled from the spec: \<open>Context::push_jump\<close>, defined outside the sources: the current
  selections are pushed on the jump list.
\<close>

definition push_jump :: "'b Context \<Rightarrow> 'b Context" where
  "push_jump context = context\<lparr>jump_list := jump_list context @ [selections context]\<rparr>"

section \<open>The select envelope (normal.cc, lines 27-66)\<close>

datatype SelectMode = Replace | Extend | Append

text \<open>
  Modelled from the spec: \<open>Selection::min\<close> and \<open>Selection::max\<close>, declared outside the
  sources: the ordered endpoints of a selection, regardless of its direction.
\<close>

definition sel_min :: "Selection \<Rightarrow> ByteCoord" where
  "sel_min s = min (anchor s) (cursor s)"

definition sel_max :: "Selection \<Rightarrow> ByteCoord" where
  "sel_max s = max (anchor s) (cursor s)"

text \<open>
  Modelled from the spec: \<open>Selection::merge_with\<close>, declared outside the sources, as the
  Extend mode uses it: the original range is extended, not replaced; the anchor is
  preserved and the cursor moves to the cursor of the result.
\<close>

definition merge_with :: "Selection \<Rightarrow> Selection \<Rightarrow> Selection" where
  "merge_with sel res = sel\<lparr>cursor := cursor res\<rparr>"

text \<open>
  Modelled from the spec: \<open>SelectionList::push_back\<close> and
  \<open>SelectionList::set_main_index\<close>, declared outside the sources.
\<close>

definition push_back :: "SelectionList \<Rightarrow> Selection \<Rightarrow> SelectionList" where
  "push_back sl s = sl\<lparr>sels := sels sl @ [s]\<rparr>"

definition set_main_index :: "SelectionList \<Rightarrow> nat \<Rightarrow> SelectionList" where
  "set_main_index sl i = sl\<lparr>main_index := i\<rparr>"

text \<open>
  Modelled from the spec: when two selections have to be merged. Selections are closed
  ranges of coordinates; two of them overlap or touch when they share a coordinate.
\<close>

definition overlaps :: "Selection \<Rightarrow> Selection \<Rightarrow> bool" where
  "overlaps a b = (sel_min a \<le> sel_max b \<and> sel_min b \<le> sel_max a)"

text \<open>
  Modelled from the spec: the merge of two selections inside
  \<open>sort_and_merge_overlapping\<close>. It keeps the union of the two ranges and the direction of
  the first selection, and concatenates the captures, those of the first selection
  leading.
\<close>

definition merge_union :: "Selection \<Rightarrow> Selection \<Rightarrow> Selection" where
  "merge_union a b =
     (let lo = min (sel_min a) (sel_min b); hi = max (sel_max a) (sel_max b)
      in if anchor a \<le> cursor a
         then \<lparr>anchor = lo, cursor = hi, captures = captures a @ captures b\<rparr>
         else \<lparr>anchor = hi, cursor = lo, captures = captures a @ captures b\<rparr>)"

text \<open>
  Modelled from the spec: the merging pass of \<open>sort_and_merge_overlapping\<close> over the
  sorted selections. Each selection carries a flag telling whether it is, or has absorbed,
  the main selection. A selection that overlaps or touches its successor absorbs it.
\<close>

fun merge_overlapping :: "(Selection \<times> bool) list \<Rightarrow> (Selection \<times> bool) list" where
  "merge_overlapping (a # b # rest) =
     (if overlaps (fst a) (fst b)
      then merge_overlapping ((merge_union (fst a) (fst b), snd a \<or> snd b) # rest)
      else a # merge_overlapping (b # rest))"
| "merge_overlapping xs = xs"

text \<open>
  Modelled from the spec: \<open>SelectionList::sort_and_merge_overlapping\<close>, defined outside
  the sources. The selections are sorted by \<open>min()\<close>, ascending and stably, overlapping or
  touching ones are merged, and the main index is remapped to the selection that is or
  contains the former main selection.
\<close>

definition sort_and_merge_overlapping :: "SelectionList \<Rightarrow> SelectionList" where
  "sort_and_merge_overlapping sl =
     (let marked = zip (sels sl) (map (\<lambda>i. i = main_index sl) [0..<length (sels sl)]);
          merged = merge_overlapping (sort_key (\<lambda>x. sel_min (fst x)) marked)
      in \<lparr>sels = map fst merged, main_index = length (takeWhile (\<lambda>x. \<not> snd x) merged)\<rparr>)"

text \<open>
  Modelled from the spec: the invariants of a \<open>SelectionList\<close> that do not depend on the
  buffer: it is not empty, ascending by \<open>min()\<close>, pairwise non-overlapping, and its main
  index denotes one of its selections. \<open>check_invariant\<close>, defined outside the sources,
  validates them; a violation is a fatal programming error and gives \<open>None\<close>.
\<close>

definition invariant :: "SelectionList \<Rightarrow> bool" where
  "invariant sl =
     (sels sl \<noteq> []
      \<and> sorted (map sel_min (sels sl))
      \<and> sorted_wrt (\<lambda>a b. \<not> overlaps a b) (sels sl)
      \<and> main_index sl < length (sels sl))"

definition check_invariant :: "SelectionList \<Rightarrow> SelectionList option" where
  "check_invariant sl = (if invariant sl then Some sl else None)"

text \<open>
  The body of the loop \<open>for (auto& sel : selections)\<close> of \<open>select\<close> (lines 50-62), for the
  modes Replace and Extend. \<open>func\<close> is the per-selection function; it reads the buffer.
\<close>

definition select_each ::
  "SelectMode \<Rightarrow> ('b \<Rightarrow> Selection \<Rightarrow> Selection) \<Rightarrow> 'b \<Rightarrow> Selection \<Rightarrow> Selection" where
  "select_each mode func buf sel =
     (let res = func buf sel;
          sel' = (if mode = Extend then merge_with sel res
                  else sel\<lparr>anchor := anchor res, cursor := cursor res\<rparr>)
      in if captures res \<noteq> [] then sel'\<lparr>captures := captures res\<rparr> else sel')"

text \<open>
  The two branches of \<open>select\<close> (lines 39-63). In Append mode the function is applied to
  the main selection only, the result inherits the captures of the main selection when
  it has none, is pushed at the back and becomes the main selection. \<open>selections.main()\<close>
  with a main index out of range has no defined result; this is \<open>None\<close>.
\<close>

definition select_apply ::
  "SelectMode \<Rightarrow> ('b \<Rightarrow> Selection \<Rightarrow> Selection) \<Rightarrow> 'b \<Rightarrow> SelectionList \<Rightarrow>
   SelectionList option" where
  "select_apply mode func buf sl =
     (if mode = Append then
        (if main_index sl < length (sels sl) then
           (let sel = sels sl ! main_index sl;
                res = func buf sel;
                res' = (if captures res = [] then res\<lparr>captures := captures sel\<rparr> else res);
                sl' = push_back sl res'
            in Some (set_main_index sl' (length (sels sl') - 1)))
         else None)
      else Some (sl\<lparr>sels := map (select_each mode func buf) (sels sl)\<rparr>))"

text \<open>
  \<open>select<mode>\<close>, lines 34-66: the branch for the mode, then
  \<open>sort_and_merge_overlapping\<close>, then \<open>check_invariant\<close>.
\<close>

definition select ::
  "SelectMode \<Rightarrow> ('b \<Rightarrow> Selection \<Rightarrow> Selection) \<Rightarrow> 'b Context \<Rightarrow> 'b Context option" where
  "select mode func context =
     (case select_apply mode func (buffer context) (selections context) of
        None \<Rightarrow> None
      | Some sl \<Rightarrow>
          (case check_invariant (sort_and_merge_overlapping sl) of
             None \<Rightarrow> None
           | Some sl' \<Rightarrow> Some (context\<lparr>selections := sl'\<rparr>)))"

text \<open>A sequence of transformations, each with its mode and its function.\<close>

fun select_sequence ::
  "(SelectMode \<times> ('b \<Rightarrow> Selection \<Rightarrow> Selection)) list \<Rightarrow> 'b Context \<Rightarrow>
   'b Context option" where
  "select_sequence [] context = Some context"
| "select_sequence (op # ops) context =
     (case select (fst op) (snd op) context of
        None \<Rightarrow> None
      | Some context' \<Rightarrow> select_sequence ops context')"

text \<open>
  What every caller of \<open>select\<close> provides: a selection list that is not empty and whose
  main index is in range.
\<close>

definition well_formed :: "SelectionList \<Rightarrow> bool" where
  "well_formed sl = (sels sl \<noteq> [] \<and> main_index sl < length (sels sl))"

section \<open>Paste: char-wise versus line-wise insertion (normal.cc)\<close>

text \<open>
  The enumerators of \<open>InsertMode\<close> that normal.cc names. The enum itself is declared in a
  header that is not part of the sources at hand.
\<close>

datatype InsertMode =
    Insert
  | Append
  | Replace
  | InsertAtLineBegin
  | InsertAtNextLineBegin
  | AppendAtLineEnd
  | OpenLineBelow
  | OpenLineAbove

text \<open>\<open>adapt_for_linewise\<close>, normal.cc lines 501-509: a chain of conditional expressions.\<close>

definition adapt_for_linewise :: "InsertMode \<Rightarrow> InsertMode" where
  "adapt_for_linewise mode =
     (if mode = Append then InsertAtNextLineBegin
      else if mode = Insert then InsertAtLineBegin
      else if mode = Replace then Replace
      else Insert)"

text \<open>The test of the loop body: \<open>not str.empty() and str.back() == '\n'\<close>.\<close>

definition ends_with_eol :: "string \<Rightarrow> bool" where
  "ends_with_eol str = (str \<noteq> [] \<and> last str = CHR 0x0A)"

text \<open>
  The loop of \<open>paste\<close> (lines 515-523). \<open>effective_mode\<close> starts as \<open>mode\<close>; the first
  string that ends with a newline sets it to \<open>adapt_for_linewise mode\<close> and leaves the loop
  (\<open>break\<close>).
\<close>

fun paste_loop :: "InsertMode \<Rightarrow> InsertMode \<Rightarrow> string list \<Rightarrow> InsertMode" where
  "paste_loop mode effective_mode [] = effective_mode"
| "paste_loop mode effective_mode (str # strings) =
     (if ends_with_eol str then adapt_for_linewise mode
      else paste_loop mode effective_mode strings)"

text \<open>
  \<open>paste<mode>\<close>, lines 511-526. The register lookup (\<open>reg_values\<close>) and
  \<open>SelectionList::insert\<close> (\<open>insert_sel\<close>) are collaborators outside the sources and are
  taken as parameters; \<open>insert_sel\<close> receives all strings and the single effective mode.
  The \<open>ScopedEdition\<close> around the insertion groups the edits for undo and is not
  modelled.
\<close>

definition paste ::
  "(char \<Rightarrow> 'c \<Rightarrow> string list) \<Rightarrow> (string list \<Rightarrow> InsertMode \<Rightarrow> 'c \<Rightarrow> 'c) \<Rightarrow>
   InsertMode \<Rightarrow> 'c \<Rightarrow> char \<Rightarrow> 'c" where
  "paste reg_values insert_sel mode context reg =
     (let strings = reg_values reg context;
          effective_mode = paste_loop mode mode strings
      in insert_sel strings effective_mode context)"

text \<open>
  The two insertion points that are placed relative to a line: the start of the current
  line and the start of the next one.
\<close>

definition line_oriented :: "InsertMode \<Rightarrow> bool" where
  "line_oriented m = (m = InsertAtLineBegin \<or> m = InsertAtNextLineBegin)"

section \<open>Word index query (word\_db.hh)\<close>

type_synonym UsedLetters = "64 word"

record WordInfo =
  letters :: UsedLetters
  refcount :: int

text \<open>
  \<open>m_words\<close> is an unordered map from word to \<open>WordInfo\<close>; it is kept as the list of its
  entries in iteration order.
\<close>

record WordDB =
  m_timestamp :: nat
  m_words :: "(string \<times> WordInfo) list"

text \<open>
  The loop of \<open>WordDB::find_matching\<close> (lines 33-38): an entry is pushed when the query's
  letters are a subset of the entry's stored letters and the caller's predicate accepts it.
\<close>

fun find_matching_loop ::
  "UsedLetters \<Rightarrow> (string \<Rightarrow> string \<Rightarrow> bool) \<Rightarrow> string \<Rightarrow> (string \<times> WordInfo) list \<Rightarrow>
   string list \<Rightarrow> string list" where
  "find_matching_loop ls match str [] res = res"
| "find_matching_loop ls match str (word # ws) res =
     find_matching_loop ls match str ws
       (if (ls AND letters (snd word)) = ls \<and> match (fst word) str
        then res @ [fst word] else res)"

text \<open>
  \<open>WordDB::find_matching\<close>, lines 26-39. \<open>used_letters\<close> and \<open>update_db\<close> are defined in
  a file outside the sources and are parameters. The function returns the word list
  together with the database as \<open>update_db\<close> left it.
\<close>

definition find_matching ::
  "(string \<Rightarrow> UsedLetters) \<Rightarrow> (WordDB \<Rightarrow> WordDB) \<Rightarrow> WordDB \<Rightarrow> string \<Rightarrow>
   (string \<Rightarrow> string \<Rightarrow> bool) \<Rightarrow> string list \<times> WordDB" where
  "find_matching used_letters update_db db str match =
     (let db' = update_db db;
          ls = used_letters str
      in (find_matching_loop ls match str (m_words db') [], db'))"

section \<open>Regular expressions\<close>

text \<open>
  A \<open>Regex\<close> is either default-constructed (\<open>Regex{}\<close>, for which \<open>empty()\<close> holds) or
  compiled from a pattern, which \<open>str()\<close> returns. Whether a pattern compiles is decided
  by the regex library: \<open>rx_error\<close> gives the message of the \<open>RegexError\<close> for a pattern
  that does not.
\<close>

datatype Regex = NoRegex | Compiled string

fun regex_empty :: "Regex \<Rightarrow> bool" where
  "regex_empty NoRegex = True"
| "regex_empty (Compiled s) = False"

fun regex_str :: "Regex \<Rightarrow> string" where
  "regex_str NoRegex = []"
| "regex_str (Compiled s) = s"

definition make_regex :: "(string \<Rightarrow> string option) \<Rightarrow> string \<Rightarrow> exn + Regex" where
  "make_regex rx_error str =
     (case rx_error str of Some what \<Rightarrow> Inl (RegexError what) | None \<Rightarrow> Inr (Compiled str))"

section \<open>The regex prompt (normal.cc, lines 564-619)\<close>

text \<open>
  The three \<open>catch\<close> clauses of the prompt callback, in their order. \<open>snapshot\<close> is the
  closure's copy \<open>selections\<close> of the selection list.
\<close>

fun regex_prompt_catch ::
  "SelectionList \<Rightarrow> PromptEvent \<Rightarrow> 'b Context outcome \<Rightarrow> 'b Context outcome" where
  "regex_prompt_catch snapshot event (Returned context) = Returned context"
| "regex_prompt_catch snapshot event (Threw (RegexError what) context) =
     (if event = Validate then Threw (runtime_error (''regex error: '' @ what)) context
      else Returned (context\<lparr>prompt_face := ErrorFace\<rparr>))"
| "regex_prompt_catch snapshot event (Threw (std_runtime_error what) context) =
     (if event = Validate then Threw (runtime_error (''regex error: '' @ what)) context
      else (let context' = context\<lparr>prompt_face := ErrorFace\<rparr>
            in Returned (if has_ui context'
                         then context'\<lparr>info := Some (''regex error'', what)\<rparr>
                         else context')))"
| "regex_prompt_catch snapshot event (Threw (runtime_error what) context) =
     (let context' = context\<lparr>selections := snapshot\<rparr>
      in if event = Validate then Threw (runtime_error what) context'
         else Returned context')"

text \<open>The \<open>try\<close> block of the callback.\<close>

definition regex_prompt_try ::
  "(string \<Rightarrow> string option) \<Rightarrow>
   (Regex \<Rightarrow> PromptEvent \<Rightarrow> 'b Context \<Rightarrow> 'b Context outcome) \<Rightarrow>
   SelectionList \<Rightarrow> string \<Rightarrow> PromptEvent \<Rightarrow> 'b Context \<Rightarrow> 'b Context outcome" where
  "regex_prompt_try rx_error func snapshot str event context =
     (let context1 = (if event \<noteq> Change \<and> has_ui context
                      then context\<lparr>info := None\<rparr> else context);
          context2 = context1\<lparr>selections := snapshot\<rparr>;
          context3 = context2\<lparr>prompt_face := PromptFace\<rparr>
      in if event = Abort then Returned context3
         else if event = Change \<and> (str = [] \<or> \<not> incsearch context3) then Returned context3
         else (let context4 = (if event = Validate then push_jump context3 else context3)
               in case (if str = [] then Inr NoRegex else make_regex rx_error str) of
                    Inl e \<Rightarrow> Threw e context4
                  | Inr regex \<Rightarrow> func regex event context4))"

text \<open>
  The callback that \<open>regex_prompt\<close> registers. The closure owns the copy
  \<open>selections\<close> (here \<open>snapshot\<close>) taken when the prompt opened; each event first
  forwards it through the buffer's edits (\<open>SelectionList::update\<close>, a parameter that
  reads the buffer) and the closure keeps the forwarded snapshot, which is returned
  beside the outcome.
\<close>

definition regex_prompt_callback ::
  "('b \<Rightarrow> SelectionList \<Rightarrow> SelectionList) \<Rightarrow> (string \<Rightarrow> string option) \<Rightarrow>
   (Regex \<Rightarrow> PromptEvent \<Rightarrow> 'b Context \<Rightarrow> 'b Context outcome) \<Rightarrow>
   SelectionList \<Rightarrow> string \<Rightarrow> PromptEvent \<Rightarrow> 'b Context \<Rightarrow>
   SelectionList \<times> 'b Context outcome" where
  "regex_prompt_callback update rx_error func snapshot str event context =
     (let snapshot' = update (buffer context) snapshot
      in (snapshot',
          regex_prompt_catch snapshot' event
            (regex_prompt_try rx_error func snapshot' str event context)))"

text \<open>
  A prompt session: the events delivered to the callback one after the other, until one
  of them lets an exception out.
\<close>

fun regex_prompt_events ::
  "('b \<Rightarrow> SelectionList \<Rightarrow> SelectionList) \<Rightarrow> (string \<Rightarrow> string option) \<Rightarrow>
   (Regex \<Rightarrow> PromptEvent \<Rightarrow> 'b Context \<Rightarrow> 'b Context outcome) \<Rightarrow>
   SelectionList \<Rightarrow> (string \<times> PromptEvent) list \<Rightarrow> 'b Context \<Rightarrow>
   SelectionList \<times> 'b Context outcome" where
  "regex_prompt_events update rx_error func snapshot [] context =
     (snapshot, Returned context)"
| "regex_prompt_events update rx_error func snapshot (ev # evs) context =
     (case regex_prompt_callback update rx_error func snapshot (fst ev) (snd ev) context of
        (snapshot', Returned context') \<Rightarrow>
          regex_prompt_events update rx_error func snapshot' evs context'
      | (snapshot', Threw e context') \<Rightarrow> (snapshot', Threw e context'))"

text \<open>
  \<open>regex_prompt\<close> (lines 564-619) copies the selections of the context it is called
  with and opens the prompt; the events of the session then reach the callback.
\<close>

definition regex_prompt ::
  "('b \<Rightarrow> SelectionList \<Rightarrow> SelectionList) \<Rightarrow> (string \<Rightarrow> string option) \<Rightarrow>
   (Regex \<Rightarrow> PromptEvent \<Rightarrow> 'b Context \<Rightarrow> 'b Context outcome) \<Rightarrow>
   'b Context \<Rightarrow> (string \<times> PromptEvent) list \<Rightarrow> SelectionList \<times> 'b Context outcome" where
  "regex_prompt update rx_error func context events =
     regex_prompt_events update rx_error func (selections context) events context"

text \<open>
  The context as the callback hands it to \<open>func\<close>: the info box hidden unless the event
  is Change, the snapshot as the selections, the prompt face reset, and the jump pushed
  on Validate.
\<close>

definition func_context :: "SelectionList \<Rightarrow> PromptEvent \<Rightarrow> 'b Context \<Rightarrow> 'b Context" where
  "func_context snapshot' event context =
     (let context3 = (if event \<noteq> Change \<and> has_ui context then context\<lparr>info := None\<rparr>
                      else context)\<lparr>selections := snapshot', prompt_face := PromptFace\<rparr>
      in if event = Validate then push_jump context3 else context3)"

section \<open>Search, select, split (normal.cc, lines 621-702)\<close>

text \<open>
  The body that the lambdas of \<open>search\<close>, \<open>select_regex\<close> and \<open>split_regex\<close> share word
  for word; they differ in the selector called last (\<open>apply_regex\<close>), which works on the
  buffer and can throw. An empty regex is replaced by one compiled from the value of
  register "/" for the main selection; a non-empty one is stored in register "/" when the
  event is Validate. The selector runs unless the regex or its pattern is empty.
\<close>

definition with_search_register ::
  "(string \<Rightarrow> string option) \<Rightarrow> (Regex \<Rightarrow> 'b Context \<Rightarrow> 'b Context outcome) \<Rightarrow>
   Regex \<Rightarrow> PromptEvent \<Rightarrow> 'b Context \<Rightarrow> 'b Context outcome" where
  "with_search_register rx_error apply_regex ex event context =
     (case (if regex_empty ex
            then (case make_regex rx_error (main_sel_register_value context (CHR ''/'')) of
                    Inl e \<Rightarrow> Inl e
                  | Inr ex' \<Rightarrow> Inr (ex', context))
            else if event = Validate
            then Inr (ex, context\<lparr>registers := (registers context)(CHR ''/'' := [regex_str ex])\<rparr>)
            else Inr (ex, context)) of
        Inl e \<Rightarrow> Threw e context
      | Inr (ex', context') \<Rightarrow>
          (if \<not> regex_empty ex' \<and> regex_str ex' \<noteq> [] then apply_regex ex' context'
           else Returned context'))"

text \<open>
  \<open>search<mode, direction>\<close>, \<open>select_regex\<close> and \<open>split_regex\<close>: the prompt callback with
  the shared body around \<open>select_next_match<direction, mode>\<close>, \<open>select_all_matches\<close> and
  \<open>split_selections\<close>. The three selectors reach the buffer through functions outside the
  sources and are parameters.
\<close>

definition search ::
  "('b \<Rightarrow> SelectionList \<Rightarrow> SelectionList) \<Rightarrow> (string \<Rightarrow> string option) \<Rightarrow>
   (Regex \<Rightarrow> 'b Context \<Rightarrow> 'b Context outcome) \<Rightarrow>
   SelectionList \<Rightarrow> string \<Rightarrow> PromptEvent \<Rightarrow> 'b Context \<Rightarrow>
   SelectionList \<times> 'b Context outcome" where
  "search update rx_error select_next_match =
     regex_prompt_callback update rx_error (with_search_register rx_error select_next_match)"

definition select_regex ::
  "('b \<Rightarrow> SelectionList \<Rightarrow> SelectionList) \<Rightarrow> (string \<Rightarrow> string option) \<Rightarrow>
   (Regex \<Rightarrow> 'b Context \<Rightarrow> 'b Context outcome) \<Rightarrow>
   SelectionList \<Rightarrow> string \<Rightarrow> PromptEvent \<Rightarrow> 'b Context \<Rightarrow>
   SelectionList \<times> 'b Context outcome" where
  "select_regex update rx_error select_all_matches =
     regex_prompt_callback update rx_error (with_search_register rx_error select_all_matches)"

definition split_regex ::
  "('b \<Rightarrow> SelectionList \<Rightarrow> SelectionList) \<Rightarrow> (string \<Rightarrow> string option) \<Rightarrow>
   (Regex \<Rightarrow> 'b Context \<Rightarrow> 'b Context outcome) \<Rightarrow>
   SelectionList \<Rightarrow> string \<Rightarrow> PromptEvent \<Rightarrow> 'b Context \<Rightarrow>
   SelectionList \<times> 'b Context outcome" where
  "split_regex update rx_error split_selections =
     regex_prompt_callback update rx_error (with_search_register rx_error split_selections)"

section \<open>Repeating the last search (normal.cc, lines 635-655)\<close>

text \<open>
  The loop \<open>do { select_next_match(...); } while (--params.count > 0)\<close>. An exception of
  the body leaves the loop. The decrement is that of a 32-bit integer, and the test reads
  the decremented count as a signed value.
\<close>

function search_next_loop ::
  "('b Context \<Rightarrow> 'b Context outcome) \<Rightarrow> cpp_int \<Rightarrow> 'b Context \<Rightarrow>
   'b Context outcome" where
  "search_next_loop body count context =
     (case body context of
        Threw e context' \<Rightarrow> Threw e context'
      | Returned context' \<Rightarrow>
          (if 0 < sint (count - 1) then search_next_loop body (count - 1) context'
           else Returned context'))"
  by pat_completeness auto
termination
proof (relation "measure (\<lambda>(body, count, context). nat (sint (count - 1)))")
  show "wf (measure (\<lambda>(body, count, context). nat (sint (count - 1))))"
    by simp
next
  fix body :: "'b Context \<Rightarrow> 'b Context outcome" and count :: cpp_int
    and c c' :: "'b Context"
  assume pos: "0 < sint (count - 1)"
  have dec: "sint (d - 1) = sint d - 1" if "0 < sint d" for d :: cpp_int
  proof -
    have "sint (d - 1) = signed_take_bit 31 (sint d - 1)"
      by (simp add: sint_word_ariths)
    also have "\<dots> = sint d - 1"
      using that sint_lt[of d] by (intro signed_take_bit_int_eq_self) simp_all
    finally show ?thesis .
  qed
  from dec[OF pos] show "((body, count - 1, c'), (body, count, c))
      \<in> measure (\<lambda>(body, count, context). nat (sint (count - 1)))"
    using pos by simp
qed

declare search_next_loop.simps [simp del]

text \<open>
  \<open>search_next<mode, direction>\<close>. The \<open>try\<close> block spans the construction of the regex
  and the loop; its only handler turns a \<open>RegexError\<close> into a \<open>runtime_error\<close>.
\<close>

definition search_next ::
  "(string \<Rightarrow> string option) \<Rightarrow> (Regex \<Rightarrow> 'b Context \<Rightarrow> 'b Context outcome) \<Rightarrow>
   'b Context \<Rightarrow> cpp_int \<Rightarrow> 'b Context outcome" where
  "search_next rx_error select_next_match context count =
     (let str = main_sel_register_value context (CHR ''/'')
      in if str \<noteq> [] then
           (case (case make_regex rx_error str of
                    Inl e \<Rightarrow> Threw e context
                  | Inr ex \<Rightarrow> search_next_loop (select_next_match ex) count context) of
              Threw (RegexError what) context' \<Rightarrow>
                Threw (runtime_error (''regex error: '' @ what)) context'
            | r \<Rightarrow> r)
         else Threw (runtime_error ''no search pattern'') context)"

text \<open>Applying a command \<open>n\<close> times, stopping at the first exception.\<close>

fun repeat_outcome :: "nat \<Rightarrow> ('s \<Rightarrow> 's outcome) \<Rightarrow> 's \<Rightarrow> 's outcome" where
  "repeat_outcome 0 body s = Returned s"
| "repeat_outcome (Suc n) body s =
     (case body s of Threw e s' \<Rightarrow> Threw e s' | Returned s' \<Rightarrow> repeat_outcome n body s')"

section \<open>Keeping selections (normal.cc, lines 762-805)\<close>

text \<open>
  The loop of the lambda of \<open>keep<matching>\<close>: a selection is kept when the result of
  \<open>regex_search\<close> on its text equals \<open>matching\<close>. \<open>regex_search\<close> belongs to the regex
  library and can throw while matching.
\<close>

fun keep_loop ::
  "(Selection \<Rightarrow> exn + bool) \<Rightarrow> bool \<Rightarrow> Selection list \<Rightarrow> Selection list \<Rightarrow>
   exn + Selection list" where
  "keep_loop regex_search matching [] keep = Inr keep"
| "keep_loop regex_search matching (sel # rest) keep =
     (case regex_search sel of
        Inl e \<Rightarrow> Inl e
      | Inr found \<Rightarrow>
          keep_loop regex_search matching rest (if found = matching then keep @ [sel] else keep))"

definition keep_func ::
  "('b \<Rightarrow> Regex \<Rightarrow> Selection \<Rightarrow> exn + bool) \<Rightarrow> bool \<Rightarrow>
   Regex \<Rightarrow> PromptEvent \<Rightarrow> 'b Context \<Rightarrow> 'b Context outcome" where
  "keep_func regex_search matching ex event context =
     (if regex_empty ex then Returned context
      else (case keep_loop (regex_search (buffer context) ex) matching
                   (sels (selections context)) [] of
              Inl e \<Rightarrow> Threw e context
            | Inr keep \<Rightarrow>
                (if keep = [] then Threw (runtime_error ''no selections remaining'') context
                 else Returned (set_selections keep context))))"

text \<open>\<open>keep<matching>\<close>: the prompt callback around the lambda above.\<close>

definition keep ::
  "('b \<Rightarrow> SelectionList \<Rightarrow> SelectionList) \<Rightarrow> (string \<Rightarrow> string option) \<Rightarrow>
   ('b \<Rightarrow> Regex \<Rightarrow> Selection \<Rightarrow> exn + bool) \<Rightarrow> bool \<Rightarrow>
   SelectionList \<Rightarrow> string \<Rightarrow> PromptEvent \<Rightarrow> 'b Context \<Rightarrow>
   SelectionList \<times> 'b Context outcome" where
  "keep update rx_error regex_search matching =
     regex_prompt_callback update rx_error (keep_func regex_search matching)"

text \<open>
  The callback of \<open>keep_pipe\<close>. \<open>pipe_status\<close> stands for the exit status that
  \<open>ShellManager::pipe\<close> reports for the text of a selection and the command line; the
  callback is a plain prompt callback, without the snapshot of \<open>regex_prompt\<close>.
\<close>

definition keep_pipe ::
  "('b Context \<Rightarrow> Selection \<Rightarrow> string \<Rightarrow> int) \<Rightarrow>
   string \<Rightarrow> PromptEvent \<Rightarrow> 'b Context \<Rightarrow> 'b Context outcome" where
  "keep_pipe pipe_status cmdline event context =
     (if event \<noteq> Validate then Returned context
      else (let keep = filter (\<lambda>sel. pipe_status context sel cmdline = 0)
                         (sels (selections context))
            in if keep = [] then Threw (runtime_error ''no selections remaining'') context
               else Returned (set_selections keep context)))"

section \<open>Undo and redo (normal.cc, lines 1260-1292)\<close>

text \<open>
  \<open>undo\<close>. The buffer's \<open>undo()\<close> returns whether a change was undone and leaves a new
  buffer state; \<open>timestamp\<close>, \<open>compute_modified_ranges\<close> and \<open>SelectionList::avoid_eol\<close>
  are the other collaborators outside the sources.
\<close>

definition undo ::
  "('b \<Rightarrow> bool \<times> 'b) \<Rightarrow> ('b \<Rightarrow> nat) \<Rightarrow> ('b \<Rightarrow> nat \<Rightarrow> Selection list) \<Rightarrow>
   ('b \<Rightarrow> SelectionList \<Rightarrow> SelectionList) \<Rightarrow> 'b Context \<Rightarrow> 'b Context" where
  "undo buffer_undo timestamp compute_modified_ranges avoid_eol context =
     (let ts = timestamp (buffer context);
          (res, buf) = buffer_undo (buffer context);
          context1 = context\<lparr>buffer := buf\<rparr>
      in if res then
           (let ranges = compute_modified_ranges buf ts;
                context2 = (if ranges \<noteq> [] then set_selections ranges context1 else context1)
            in context2\<lparr>selections := avoid_eol buf (selections context2)\<rparr>)
         else if \<not> res then
           context1\<lparr>status := Some (''nothing left to undo'', InformationFace)\<rparr>
         else context1)"

text \<open>\<open>redo\<close>: the same with the buffer's \<open>redo()\<close> and its own status text.\<close>

definition redo ::
  "('b \<Rightarrow> bool \<times> 'b) \<Rightarrow> ('b \<Rightarrow> nat) \<Rightarrow> ('b \<Rightarrow> nat \<Rightarrow> Selection list) \<Rightarrow>
   ('b \<Rightarrow> SelectionList \<Rightarrow> SelectionList) \<Rightarrow> 'b Context \<Rightarrow> 'b Context" where
  "redo buffer_redo timestamp compute_modified_ranges avoid_eol context =
     (let ts = timestamp (buffer context);
          (res, buf) = buffer_redo (buffer context);
          context1 = context\<lparr>buffer := buf\<rparr>
      in if res then
           (let ranges = compute_modified_ranges buf ts;
                context2 = (if ranges \<noteq> [] then set_selections ranges context1 else context1)
            in context2\<lparr>selections := avoid_eol buf (selections context2)\<rparr>)
         else if \<not> res then
           context1\<lparr>status := Some (''nothing left to redo'', InformationFace)\<rparr>
         else context1)"

section \<open>Macro replay (normal.cc, lines 1066-1090)\<close>

text \<open>
  A key event: its modifiers and its key. \<open>Key\<close> is declared outside the sources;
  \<open>NoModifiers\<close> stands for \<open>Key::Modifiers::None\<close>.
\<close>

datatype Modifiers = NoModifiers | Control | Alt | ControlAlt

record Key =
  modifiers :: Modifiers
  key :: char

text \<open>
  \<open>is_basic_alpha\<close> (normal.cc, lines 1043-1046):
  \<open>(c >= 'a' and c <= 'z') or (c >= 'A' and c <= 'Z')\<close>. Its argument is a \<open>Codepoint\<close>;
  the keys of this model carry a \<open>char\<close>.
\<close>

definition is_basic_alpha :: "char \<Rightarrow> bool" where
  "is_basic_alpha c =
     ((of_char (CHR ''a'') \<le> (of_char c :: nat) \<and> (of_char c :: nat) \<le> of_char (CHR ''z''))
      \<or> (of_char (CHR ''A'') \<le> (of_char c :: nat) \<and> (of_char c :: nat) \<le> of_char (CHR ''Z'')))"

text \<open>
  The \<open>tolower\<close> of the C library, in the C locale: an upper-case letter becomes its
  lower-case letter, so it names the same macro slot; every other character is unchanged.
\<close>

definition tolower :: "char \<Rightarrow> char" where
  "tolower c =
     (if of_char (CHR ''A'') \<le> (of_char c :: nat) \<and> (of_char c :: nat) \<le> of_char (CHR ''Z'')
      then char_of ((of_char c :: nat) + 32) else c)"

text \<open>\<open>idx\<close>: \<open>(size_t)(name - 'a')\<close> for \<open>name = tolower(key.key)\<close>.\<close>

definition macro_index :: "char \<Rightarrow> nat" where
  "macro_index c = of_char (tolower c) - of_char (CHR ''a'')"

text \<open>
  The state that a replay works on: the flags \<open>running_macros\<close> (a static array of the
  callback, one flag per slot), the state of the input handler (a replay callback waiting
  for its key, with the count it captured, and the numeric prefix typed so far), and the
  rest of the editor (buffer, selections, registers), of an abstract type.
\<close>

record 'c Editor =
  running_macros :: "nat \<Rightarrow> bool"
  pending_replay :: "cpp_int option"
  prefix_count :: cpp_int
  editor :: 'c

text \<open>
  The collaborators outside the sources: the values of a register, \<open>parse_keys\<close>, the
  constructor and the destructor of \<open>ScopedEdition\<close>, and the commands bound to the keys
  other than "q", which receive the count.
\<close>

record 'c Collaborators =
  register_values :: "char \<Rightarrow> 'c \<Rightarrow> string list"
  parse_keys :: "string \<Rightarrow> Key list"
  begin_edition :: "'c \<Rightarrow> 'c"
  end_edition :: "'c \<Rightarrow> 'c"
  other_command :: "cpp_int \<Rightarrow> Key \<Rightarrow> 'c \<Rightarrow> 'c outcome"

text \<open>
  The loop \<open>do { exec_keys(keys, context); } while (--params.count > 0)\<close>, with the
  32-bit decrement and the signed test. The body gives \<open>None\<close> when the model ran out of
  fuel (see \<open>exec_keys\<close> below).
\<close>

function replay_loop ::
  "('s \<Rightarrow> 's outcome option) \<Rightarrow> cpp_int \<Rightarrow> 's \<Rightarrow> 's outcome option" where
  "replay_loop body count s =
     (case body s of
        None \<Rightarrow> None
      | Some (Threw e s') \<Rightarrow> Some (Threw e s')
      | Some (Returned s') \<Rightarrow>
          (if 0 < sint (count - 1) then replay_loop body (count - 1) s'
           else Some (Returned s')))"
  by pat_completeness auto
termination
proof (relation "measure (\<lambda>(body, count, s). nat (sint (count - 1)))")
  show "wf (measure (\<lambda>(body, count, s). nat (sint (count - 1))))"
    by simp
next
  fix body :: "'s \<Rightarrow> 's outcome option" and count :: cpp_int and s s' :: 's
  assume pos: "0 < sint (count - 1)"
  have dec: "sint (d - 1) = sint d - 1" if "0 < sint d" for d :: cpp_int
  proof -
    have "sint (d - 1) = signed_take_bit 31 (sint d - 1)"
      by (simp add: sint_word_ariths)
    also have "\<dots> = sint d - 1"
      using that sint_lt[of d] by (intro signed_take_bit_int_eq_self) simp_all
    finally show ?thesis .
  qed
  from dec[OF pos] show "((body, count - 1, s'), (body, count, s))
      \<in> measure (\<lambda>(body, count, s). nat (sint (count - 1)))"
    using pos by simp
qed

declare replay_loop.simps [simp del]

text \<open>
  What runs when the scope of the macro body is left, by return or by exception: the
  destructor of \<open>edition\<close>, then the scope guard \<open>stop\<close>, which clears the flag.
\<close>

definition scope_end :: "'c Collaborators \<Rightarrow> nat \<Rightarrow> 'c Editor \<Rightarrow> 'c Editor" where
  "scope_end env idx st =
     st\<lparr>editor := end_edition env (editor st),
        running_macros := (running_macros st)(idx := False)\<rparr>"

text \<open>
  The callback that \<open>replay_macro\<close> registers for the next key (lines 1069-1088).
  \<open>exec_keys\<close> is the function that executes the keys of the macro.
\<close>

definition replay_macro_callback ::
  "'c Collaborators \<Rightarrow> (Key list \<Rightarrow> 'c Editor \<Rightarrow> 'c Editor outcome option) \<Rightarrow>
   cpp_int \<Rightarrow> Key \<Rightarrow> 'c Editor \<Rightarrow> 'c Editor outcome option" where
  "replay_macro_callback env exec_keys count k st =
     (if modifiers k = NoModifiers \<and> is_basic_alpha (key k) then
        (let name = tolower (key k);
             idx = macro_index (key k)
         in if running_macros st idx
            then Some (Threw (runtime_error ''recursive macros call detected'') st)
            else (let reg_val = register_values env name (editor st)
                  in if reg_val \<noteq> [] then
                       (let st1 = st\<lparr>running_macros := (running_macros st)(idx := True)\<rparr>;
                            keys = parse_keys env (hd reg_val);
                            st2 = st1\<lparr>editor := begin_edition env (editor st1)\<rparr>
                        in case replay_loop (exec_keys keys) count st2 of
                             None \<Rightarrow> None
                           | Some (Returned s) \<Rightarrow> Some (Returned (scope_end env idx s))
                           | Some (Threw e s) \<Rightarrow> Some (Threw e (scope_end env idx s)))
                     else Some (Returned st)))
      else Some (Returned st))"

text \<open>
  \<open>replay_macro\<close> itself (lines 1066-1090) only registers the callback, which captures
  the count, for the next key. The info box it shows meanwhile is not modelled.
\<close>

definition replay_macro :: "cpp_int \<Rightarrow> 'c Editor \<Rightarrow> 'c Editor" where
  "replay_macro count st = st\<lparr>pending_replay := Some count\<rparr>"

text \<open>
  Modelled from the spec: the dispatch of one key, which is outside the sources. Replay
  executes the recorded keys through the same dispatch path as live input: a waiting
  callback receives the key; otherwise a digit extends the numeric prefix, "q" runs
  \<open>replay_macro\<close> with the prefix as its count, and any other key runs its command.
\<close>

definition is_digit :: "char \<Rightarrow> bool" where
  "is_digit c =
     (of_char (CHR ''0'') \<le> (of_char c :: nat) \<and> (of_char c :: nat) \<le> of_char (CHR ''9''))"

definition handle_key ::
  "'c Collaborators \<Rightarrow> (cpp_int \<Rightarrow> Key \<Rightarrow> 'c Editor \<Rightarrow> 'c Editor outcome option) \<Rightarrow>
   Key \<Rightarrow> 'c Editor \<Rightarrow> 'c Editor outcome option" where
  "handle_key env callback k st =
     (case pending_replay st of
        Some count \<Rightarrow> callback count k (st\<lparr>pending_replay := None\<rparr>)
      | None \<Rightarrow>
          (if modifiers k = NoModifiers \<and> is_digit (key k)
           then Some (Returned (st\<lparr>prefix_count :=
                  prefix_count st * 10
                  + of_nat (of_char (key k) - of_char (CHR ''0''))\<rparr>))
           else if modifiers k = NoModifiers \<and> key k = CHR ''q''
           then Some (Returned (replay_macro (prefix_count st) (st\<lparr>prefix_count := 0\<rparr>)))
           else (case other_command env (prefix_count st) k (editor st) of
                   Returned c \<Rightarrow> Some (Returned (st\<lparr>prefix_count := 0, editor := c\<rparr>))
                 | Threw e c \<Rightarrow> Some (Threw e (st\<lparr>prefix_count := 0, editor := c\<rparr>)))))"

text \<open>The keys one after the other; an exception ends the sequence.\<close>

fun handle_keys ::
  "'c Collaborators \<Rightarrow> (cpp_int \<Rightarrow> Key \<Rightarrow> 'c Editor \<Rightarrow> 'c Editor outcome option) \<Rightarrow>
   Key list \<Rightarrow> 'c Editor \<Rightarrow> 'c Editor outcome option" where
  "handle_keys env callback [] st = Some (Returned st)"
| "handle_keys env callback (k # ks) st =
     (case handle_key env callback k st of
        None \<Rightarrow> None
      | Some (Threw e s) \<Rightarrow> Some (Threw e s)
      | Some (Returned s) \<Rightarrow> handle_keys env callback ks s)"

text \<open>
  Modelled from the spec: \<open>exec_keys\<close>, defined outside the sources. A macro can replay
  macros, so \<open>exec_keys\<close> and the callback call each other; the recursion is bounded by
  \<open>fuel\<close>, the number of nested macro bodies that may still be entered, and \<open>None\<close> means
  that the fuel did not suffice.
\<close>

primrec exec_keys ::
  "'c Collaborators \<Rightarrow> nat \<Rightarrow> Key list \<Rightarrow> 'c Editor \<Rightarrow> 'c Editor outcome option" where
  "exec_keys env 0 = (\<lambda>keys st. None)"
| "exec_keys env (Suc fuel) =
     handle_keys env (replay_macro_callback env (exec_keys env fuel))"

text \<open>The number of slots whose flag is clear.\<close>

definition clear_flags :: "(nat \<Rightarrow> bool) \<Rightarrow> nat" where
  "clear_flags flags = card {i. i < 26 \<and> \<not> flags i}"

text \<open>The exception of the recursion guard.\<close>

abbreviation recursion_error :: exn where
  "recursion_error \<equiv> runtime_error ''recursive macros call detected''"

text \<open>
  Replay requests reached by an execution. The following functions walk along the
  execution of keys exactly as \<open>replay_loop\<close>, the callback, \<open>handle_keys\<close> and \<open>exec_keys\<close>
  do, and tell whether it arrives at a replay request for the macro slot \<open>i\<close>: a call of
  the callback with an unmodified letter whose slot is \<open>i\<close>, in these keys or in the keys
  of a macro replayed from them, at any depth and after any number of keys and of loop
  rounds that returned normally. They state what "a macro invokes itself, directly or
  transitively" means for an execution; they are not part of the program.

  \<open>loop_requests\<close>: some round of the do-while loop arrives at such a request.
\<close>

function loop_requests ::
  "('s \<Rightarrow> 's outcome option) \<Rightarrow> ('s \<Rightarrow> bool) \<Rightarrow> cpp_int \<Rightarrow> 's \<Rightarrow> bool" where
  "loop_requests body reach count s =
     (if reach s then True
      else (case body s of
              None \<Rightarrow> False
            | Some (Threw e s') \<Rightarrow> False
            | Some (Returned s') \<Rightarrow>
                (if 0 < sint (count - 1) then loop_requests body reach (count - 1) s'
                 else False)))"
  by pat_completeness auto
termination
proof (relation "measure (\<lambda>(body, reach, count, s). nat (sint (count - 1)))")
  show "wf (measure (\<lambda>(body, reach, count, s). nat (sint (count - 1))))"
    by simp
next
  fix body :: "'s \<Rightarrow> 's outcome option" and reach :: "'s \<Rightarrow> bool" and count :: cpp_int
    and s s' :: 's
  assume pos: "0 < sint (count - 1)"
  have dec: "sint (d - 1) = sint d - 1" if "0 < sint d" for d :: cpp_int
  proof -
    have "sint (d - 1) = signed_take_bit 31 (sint d - 1)"
      by (simp add: sint_word_ariths)
    also have "\<dots> = sint d - 1"
      using that sint_lt[of d] by (intro signed_take_bit_int_eq_self) simp_all
    finally show ?thesis .
  qed
  from dec[OF pos] show "((body, reach, count - 1, s'), (body, reach, count, s))
      \<in> measure (\<lambda>(body, reach, count, s). nat (sint (count - 1)))"
    using pos by simp
qed

declare loop_requests.simps [simp del]

text \<open>
  \<open>callback_requests\<close>: the callback is asked for slot \<open>i\<close> itself, or it replays another
  macro whose keys arrive at a request for \<open>i\<close>.
\<close>

definition callback_requests ::
  "'c Collaborators \<Rightarrow> nat \<Rightarrow> (Key list \<Rightarrow> 'c Editor \<Rightarrow> 'c Editor outcome option) \<Rightarrow>
   (Key list \<Rightarrow> 'c Editor \<Rightarrow> bool) \<Rightarrow> cpp_int \<Rightarrow> Key \<Rightarrow> 'c Editor \<Rightarrow> bool" where
  "callback_requests env i exec reach count k st =
     (if modifiers k = NoModifiers \<and> is_basic_alpha (key k) then
        (let name = tolower (key k);
             idx = macro_index (key k)
         in if idx = i then True
            else if running_macros st idx then False
            else (let reg_val = register_values env name (editor st)
                  in if reg_val \<noteq> [] then
                       (let st1 = st\<lparr>running_macros := (running_macros st)(idx := True)\<rparr>;
                            keys = parse_keys env (hd reg_val);
                            st2 = st1\<lparr>editor := begin_edition env (editor st1)\<rparr>
                        in loop_requests (exec keys) (reach keys) count st2)
                     else False))
      else False)"

text \<open>
  \<open>keys_request\<close>: the first key is given to a waiting callback that arrives at a request
  for \<open>i\<close>, or it is handled and returns, and the keys after it arrive at one.
\<close>

fun keys_request ::
  "'c Collaborators \<Rightarrow> (cpp_int \<Rightarrow> Key \<Rightarrow> 'c Editor \<Rightarrow> 'c Editor outcome option) \<Rightarrow>
   (cpp_int \<Rightarrow> Key \<Rightarrow> 'c Editor \<Rightarrow> bool) \<Rightarrow> Key list \<Rightarrow> 'c Editor \<Rightarrow> bool" where
  "keys_request env callback reach [] st = False"
| "keys_request env callback reach (k # ks) st =
     (if (case pending_replay st of
            Some count \<Rightarrow> reach count k (st\<lparr>pending_replay := None\<rparr>)
          | None \<Rightarrow> False)
      then True
      else (case handle_key env callback k st of
              None \<Rightarrow> False
            | Some (Threw e s) \<Rightarrow> False
            | Some (Returned s) \<Rightarrow> keys_request env callback reach ks s))"

text \<open>\<open>requests\<close>: the same for \<open>exec_keys\<close>, with the same fuel.\<close>

primrec requests ::
  "'c Collaborators \<Rightarrow> nat \<Rightarrow> nat \<Rightarrow> Key list \<Rightarrow> 'c Editor \<Rightarrow> bool" where
  "requests env i 0 = (\<lambda>keys st. False)"
| "requests env i (Suc fuel) =
     keys_request env (replay_macro_callback env (exec_keys env fuel))
       (callback_requests env i (exec_keys env fuel) (requests env i fuel))"

text \<open>
  \<open>invokes_itself\<close>: the replay of the macro named by \<open>k\<close> starts, since its flag is clear
  and its register holds keys, and the loop over its keys arrives at a replay request for
  its own slot.
\<close>

definition invokes_itself ::
  "'c Collaborators \<Rightarrow> nat \<Rightarrow> cpp_int \<Rightarrow> Key \<Rightarrow> 'c Editor \<Rightarrow> bool" where
  "invokes_itself env fuel count k st =
     (if modifiers k = NoModifiers \<and> is_basic_alpha (key k) then
        (let name = tolower (key k);
             idx = macro_index (key k)
         in if running_macros st idx then False
            else (let reg_val = register_values env name (editor st)
                  in if reg_val \<noteq> [] then
                       (let st1 = st\<lparr>running_macros := (running_macros st)(idx := True)\<rparr>;
                            keys = parse_keys env (hd reg_val);
                            st2 = st1\<lparr>editor := begin_edition env (editor st1)\<rparr>
                        in loop_requests (exec_keys env fuel keys) (requests env idx fuel keys)
                             count st2)
                     else False))
      else False)"

section \<open>Example states\<close>

text \<open>
  A buffer stands here for its timestamp. The example context has two selections, "foo"
  at columns 0-2 and "bar" at columns 4-6 of line 0, the second being the main one, and
  the pattern "ba" in register "/".
\<close>

definition example_selections :: SelectionList where
  "example_selections =
     \<lparr>sels = [\<lparr>anchor = (0, 0), cursor = (0, 2), captures = []\<rparr>,
              \<lparr>anchor = (0, 4), cursor = (0, 6), captures = []\<rparr>],
      main_index = 1\<rparr>"

definition example_context :: "nat Context" where
  "example_context =
     \<lparr>buffer = 0,
      selections = example_selections,
      registers = (\<lambda>r. if r = CHR ''/'' then [''ba''] else []),
      has_ui = True,
      incsearch = True,
      prompt_face = PromptFace,
      info = None,
      jump_list = [],
      status = None\<rparr>"

text \<open>
  An example per-selection function: the selection from the old cursor to three columns
  further right.
\<close>

definition example_move :: "nat \<Rightarrow> Selection \<Rightarrow> Selection" where
  "example_move b sel =
     \<lparr>anchor = cursor sel, cursor = (fst (cursor sel), snd (cursor sel) + 3), captures = []\<rparr>"

text \<open>The example regex library rejects exactly the pattern "(".\<close>

definition example_rx_error :: "string \<Rightarrow> string option" where
  "example_rx_error str = (if str = ''('' then Some ''unmatched ('' else None)"

text \<open>
  Stand-ins for the collaborators. The selector of the examples moves every selection one
  column to the right, so that the number of its applications can be read off the
  result, and stores the pattern it was given in the captures. The example matcher finds
  the pattern "ba" in the selection that starts at column 4 and nothing else.
\<close>

definition example_selector :: "Regex \<Rightarrow> nat Context \<Rightarrow> nat Context outcome" where
  "example_selector ex context =
     Returned (context\<lparr>selections :=
       (selections context)\<lparr>sels :=
          map (\<lambda>s. \<lparr>anchor = (fst (anchor s), snd (anchor s) + 1),
                      cursor = (fst (cursor s), snd (cursor s) + 1),
                      captures = [regex_str ex]\<rparr>)
              (sels (selections context))\<rparr>\<rparr>)"

definition example_regex_search :: "nat \<Rightarrow> Regex \<Rightarrow> Selection \<Rightarrow> exn + bool" where
  "example_regex_search b ex sel = Inr (regex_str ex = ''ba'' \<and> anchor sel = (0, 4))"

text \<open>
  The example buffer can be undone while its timestamp is positive; the ranges modified
  by an undo are a single one at line 0 whose length is the old timestamp, and none when
  the buffer is back at timestamp 0.
\<close>

definition example_buffer_undo :: "nat \<Rightarrow> bool \<times> nat" where
  "example_buffer_undo b = (0 < b, b - 1)"

definition example_modified_ranges :: "nat \<Rightarrow> nat \<Rightarrow> Selection list" where
  "example_modified_ranges b ts =
     (if b = 0 then [] else [\<lparr>anchor = (0, 0), cursor = (0, int ts), captures = []\<rparr>])"

text \<open>
  An example editor for macros: its state is the register table and the log of the
  commands run. The command "x" stores "i" in register "a"; every other command only
  logs its key.
\<close>

definition plain_keys :: "string \<Rightarrow> Key list" where
  "plain_keys str = map (\<lambda>c. \<lparr>modifiers = NoModifiers, key = c\<rparr>) str"

definition example_macro_env :: "((char \<Rightarrow> string list) \<times> string) Collaborators" where
  "example_macro_env =
     \<lparr>register_values = (\<lambda>name c. fst c name),
      parse_keys = plain_keys,
      begin_edition = (\<lambda>c. c),
      end_edition = (\<lambda>c. c),
      other_command = (\<lambda>count k c.
         if key k = CHR ''x'' then Returned ((fst c)(CHR ''a'' := [''i'']), snd c @ [key k])
         else Returned (fst c, snd c @ [key k]))\<rparr>"

definition example_editor ::
  "(char \<Rightarrow> string list) \<Rightarrow> ((char \<Rightarrow> string list) \<times> string) Editor" where
  "example_editor regs =
     \<lparr>running_macros = (\<lambda>i. False), pending_replay = None, prefix_count = 0,
      editor = (regs, [])\<rparr>"

text \<open>
  Register tables: macro "a" replays itself; macro "a" replays "b", which replays "a";
  macro "a" first runs "x", which rewrites it, and then replays itself.
\<close>

definition direct_regs :: "char \<Rightarrow> string list" where
  "direct_regs c = (if c = CHR ''a'' then [''qa''] else [])"

definition transitive_regs :: "char \<Rightarrow> string list" where
  "transitive_regs c =
     (if c = CHR ''a'' then [''iqb''] else if c = CHR ''b'' then [''jqA''] else [])"

definition rewriting_regs :: "char \<Rightarrow> string list" where
  "rewriting_regs c = (if c = CHR ''a'' then [''xqa''] else [])"

text \<open>
  Macro "a" runs two commands and then replays "b" three times; "b" replays "c"; "c"
  replays "d", which returns, and only then replays "a".
\<close>

definition late_regs :: "char \<Rightarrow> string list" where
  "late_regs c =
     (if c = CHR ''a'' then [''ij3qbk'']
      else if c = CHR ''b'' then [''jqcl'']
      else if c = CHR ''c'' then [''lqdmqAn'']
      else if c = CHR ''d'' then [''o'']
      else [])"

definition key_a :: Key where
  "key_a = \<lparr>modifiers = NoModifiers, key = CHR ''a''\<rparr>"

section \<open>Theorems\<close>

subsection \<open>The select envelope\<close>

lemma sel_min_le_max: "sel_min s \<le> sel_max s"
  by (simp add: sel_min_def sel_max_def min_le_iff_disj)

lemma sel_min_of_range:
  assumes "lo \<le> hi"
  shows "sel_min \<lparr>anchor = lo, cursor = hi, captures = c\<rparr> = lo"
    and "sel_min \<lparr>anchor = hi, cursor = lo, captures = c\<rparr> = lo"
  using assms by (simp_all add: sel_min_def min.absorb1 min.absorb2)

lemma range_of_merge_union:
  "min (sel_min a) (sel_min b) \<le> max (sel_max a) (sel_max b)"
proof -
  have "min (sel_min a) (sel_min b) \<le> sel_min a"
    by simp
  also have "\<dots> \<le> sel_max a"
    by (rule sel_min_le_max)
  also have "\<dots> \<le> max (sel_max a) (sel_max b)"
    by simp
  finally show ?thesis .
qed

lemma sel_min_merge_union: "sel_min (merge_union a b) = min (sel_min a) (sel_min b)"
  by (cases "anchor a \<le> cursor a")
     (simp_all add: merge_union_def Let_def sel_min_of_range[OF range_of_merge_union])

lemma merge_overlapping_lower:
  "\<forall>x \<in> set xs. lo \<le> sel_min (fst x) \<Longrightarrow> \<forall>r \<in> set (merge_overlapping xs). lo \<le> sel_min (fst r)"
  by (induction xs rule: merge_overlapping.induct) (auto simp: sel_min_merge_union)

lemma merge_overlapping_disjoint:
  "sorted (map (\<lambda>x. sel_min (fst x)) xs) \<Longrightarrow>
   sorted_wrt (\<lambda>a b. sel_max (fst a) < sel_min (fst b)) (merge_overlapping xs)"
proof (induction xs rule: merge_overlapping.induct)
  case (1 a b rest)
  show ?case
  proof (cases "overlaps (fst a) (fst b)")
    case True
    have "sel_min (merge_union (fst a) (fst b)) = sel_min (fst a)"
      using "1.prems" by (simp add: sel_min_merge_union)
    then have "sorted (map (\<lambda>x. sel_min (fst x)) ((merge_union (fst a) (fst b), snd a \<or> snd b) # rest))"
      using "1.prems" by simp
    then show ?thesis
      using "1.IH"(1)[OF True] True by simp
  next
    case False
    have le: "sel_min (fst a) \<le> sel_min (fst b)"
      using "1.prems" by simp
    have "sel_min (fst a) \<le> sel_max (fst b)"
      using le sel_min_le_max[of "fst b"] by simp
    with False have lt: "sel_max (fst a) < sel_min (fst b)"
      by (simp add: overlaps_def)
    have "\<forall>x \<in> set (b # rest). sel_min (fst b) \<le> sel_min (fst x)"
      using "1.prems" by auto
    then have "\<forall>r \<in> set (merge_overlapping (b # rest)). sel_min (fst b) \<le> sel_min (fst r)"
      by (rule merge_overlapping_lower)
    with lt have "\<forall>r \<in> set (merge_overlapping (b # rest)). sel_max (fst a) < sel_min (fst r)"
      by auto
    moreover have "sorted_wrt (\<lambda>a b. sel_max (fst a) < sel_min (fst b)) (merge_overlapping (b # rest))"
      using "1.IH"(2)[OF False] "1.prems" by simp
    ultimately show ?thesis
      using False by simp
  qed
qed simp_all

lemma merge_overlapping_nonempty: "xs \<noteq> [] \<Longrightarrow> merge_overlapping xs \<noteq> []"
  by (induction xs rule: merge_overlapping.induct) auto

lemma merge_overlapping_marked:
  "\<exists>x \<in> set xs. snd x \<Longrightarrow> \<exists>r \<in> set (merge_overlapping xs). snd r"
  by (induction xs rule: merge_overlapping.induct) auto

lemma main_position_in_range:
  assumes "r \<in> set merged" and "snd r"
  shows "length (takeWhile (\<lambda>x. \<not> snd x) merged) < length merged"
  using assms by (induction merged) auto

lemma invariant_sort_and_merge_overlapping:
  assumes "well_formed sl"
  shows "invariant (sort_and_merge_overlapping sl)"
proof -
  define marked where "marked = zip (sels sl) (map (\<lambda>i. i = main_index sl) [0..<length (sels sl)])"
  define sorted_marked where "sorted_marked = sort_key (\<lambda>x. sel_min (fst x)) marked"
  define merged where "merged = merge_overlapping sorted_marked"
  have res: "sort_and_merge_overlapping sl
      = \<lparr>sels = map fst merged, main_index = length (takeWhile (\<lambda>x. \<not> snd x) merged)\<rparr>"
    by (simp add: sort_and_merge_overlapping_def marked_def sorted_marked_def merged_def Let_def)
  have len: "length marked = length (sels sl)"
    by (simp add: marked_def)
  have "marked ! main_index sl = (sels sl ! main_index sl, True)"
    using assms by (simp add: marked_def well_formed_def)
  then have "(sels sl ! main_index sl, True) \<in> set marked"
    using assms len by (metis nth_mem well_formed_def)
  then have "\<exists>x \<in> set sorted_marked. snd x"
    by (force simp: sorted_marked_def)
  then have main: "\<exists>r \<in> set merged. snd r"
    unfolding merged_def by (rule merge_overlapping_marked)
  have "length sorted_marked = length (sels sl)"
    by (simp add: sorted_marked_def len)
  then have "sorted_marked \<noteq> []"
    using assms by (auto simp: well_formed_def)
  then have ne: "merged \<noteq> []"
    unfolding merged_def by (rule merge_overlapping_nonempty)
  have "sorted (map (\<lambda>x. sel_min (fst x)) sorted_marked)"
    by (simp add: sorted_marked_def)
  then have disj: "sorted_wrt (\<lambda>a b. sel_max (fst a) < sel_min (fst b)) merged"
    unfolding merged_def by (rule merge_overlapping_disjoint)
  have "sorted_wrt (\<lambda>a b. sel_min (fst a) \<le> sel_min (fst b)) merged"
    using disj
    by (rule sorted_wrt_mono_rel[rotated]) (meson sel_min_le_max le_less_trans less_imp_le)
  then have asc: "sorted (map sel_min (map fst merged))"
    by (simp add: sorted_wrt_map)
  have "sorted_wrt (\<lambda>a b. \<not> overlaps (fst a) (fst b)) merged"
    using disj by (rule sorted_wrt_mono_rel[rotated]) (auto simp: overlaps_def not_le)
  then have nov: "sorted_wrt (\<lambda>a b. \<not> overlaps a b) (map fst merged)"
    by (simp add: sorted_wrt_map)
  have "length (takeWhile (\<lambda>x. \<not> snd x) merged) < length merged"
    using main main_position_in_range by blast
  then show ?thesis
    using ne asc nov by (simp add: res invariant_def)
qed

lemma well_formed_select_apply:
  assumes "well_formed sl"
  obtains sl' where "select_apply mode func buf sl = Some sl'" "well_formed sl'"
  using assms
  by (cases "mode = SelectMode.Append")
     (simp_all add: well_formed_def select_apply_def push_back_def set_main_index_def Let_def)

lemma select_eq:
  assumes "well_formed (selections ctx)"
  obtains sl where
    "select_apply mode func (buffer ctx) (selections ctx) = Some sl"
    "select mode func ctx = Some (ctx\<lparr>selections := sort_and_merge_overlapping sl\<rparr>)"
    "invariant (sort_and_merge_overlapping sl)"
proof -
  obtain sl where sl: "select_apply mode func (buffer ctx) (selections ctx) = Some sl"
      "well_formed sl"
    using assms by (rule well_formed_select_apply)
  have inv: "invariant (sort_and_merge_overlapping sl)"
    using sl(2) by (rule invariant_sort_and_merge_overlapping)
  then have "select mode func ctx = Some (ctx\<lparr>selections := sort_and_merge_overlapping sl\<rparr>)"
    by (simp add: select_def sl(1) check_invariant_def)
  then show thesis
    using sl(1) inv that by blast
qed

lemma invariant_well_formed: "invariant sl \<Longrightarrow> well_formed sl"
  by (simp add: invariant_def well_formed_def)

lemma select_sequence_invariant:
  assumes "well_formed (selections ctx)"
  shows "\<exists>ctx'. select_sequence ops ctx = Some ctx'
           \<and> (ops \<noteq> [] \<longrightarrow> invariant (selections ctx'))
           \<and> well_formed (selections ctx')"
  using assms
proof (induction ops arbitrary: ctx)
  case Nil
  then show ?case by simp
next
  case (Cons op ops)
  obtain sl where step:
      "select (fst op) (snd op) ctx = Some (ctx\<lparr>selections := sort_and_merge_overlapping sl\<rparr>)"
    and inv: "invariant (sort_and_merge_overlapping sl)"
    using Cons.prems by (rule select_eq)
  let ?ctx = "ctx\<lparr>selections := sort_and_merge_overlapping sl\<rparr>"
  have wf: "well_formed (selections ?ctx)"
    using inv by (simp add: invariant_well_formed)
  obtain ctx' where c: "select_sequence ops ?ctx = Some ctx'"
      "ops \<noteq> [] \<longrightarrow> invariant (selections ctx')" "well_formed (selections ctx')"
    using Cons.IH[OF wf] by auto
  show ?case
  proof (cases "ops = []")
    case True
    then show ?thesis
      using step inv wf by simp
  next
    case False
    then show ?thesis
      using step c by simp
  qed
qed

text \<open>
  C1. Let the selection list of the context be non-empty with its main index in range,
  as every caller of \<open>select\<close> provides it. Then one \<open>select\<close>, in any of the modes
  Replace, Extend and Append and with any per-selection function, applies the function,
  then runs \<open>sort_and_merge_overlapping\<close> on the result, and the validation of the
  invariants succeeds. After every non-empty sequence of such operations the selection
  list is non-empty, ascending by \<open>min()\<close>, pairwise non-overlapping, and its main index
  denotes one of its selections.
\<close>

theorem select_preserves_invariant:
  assumes "well_formed (selections ctx)" and "ops \<noteq> []"
  shows "(\<exists>sl. select_apply mode func (buffer ctx) (selections ctx) = Some sl
            \<and> select mode func ctx
                = Some (ctx\<lparr>selections := sort_and_merge_overlapping sl\<rparr>)
            \<and> invariant (sort_and_merge_overlapping sl))
         \<and> (\<exists>ctx'. select_sequence ops ctx = Some ctx'
               \<and> sels (selections ctx') \<noteq> []
               \<and> sorted (map sel_min (sels (selections ctx')))
               \<and> (\<forall>i j. i < j \<and> j < length (sels (selections ctx')) \<longrightarrow>
                      \<not> overlaps (sels (selections ctx') ! i) (sels (selections ctx') ! j))
               \<and> main_index (selections ctx') < length (sels (selections ctx')))"
proof
  show "\<exists>sl. select_apply mode func (buffer ctx) (selections ctx) = Some sl
            \<and> select mode func ctx
                = Some (ctx\<lparr>selections := sort_and_merge_overlapping sl\<rparr>)
            \<and> invariant (sort_and_merge_overlapping sl)"
    using select_eq[OF assms(1), of mode func] by metis
next
  obtain ctx' where c: "select_sequence ops ctx = Some ctx'" "invariant (selections ctx')"
    using select_sequence_invariant[OF assms(1), of ops] assms(2) by auto
  have "\<forall>i j. i < j \<and> j < length (sels (selections ctx')) \<longrightarrow>
          \<not> overlaps (sels (selections ctx') ! i) (sels (selections ctx') ! j)"
    using c(2) by (simp add: invariant_def sorted_wrt_iff_nth_less)
  then show "\<exists>ctx'. select_sequence ops ctx = Some ctx'
               \<and> sels (selections ctx') \<noteq> []
               \<and> sorted (map sel_min (sels (selections ctx')))
               \<and> (\<forall>i j. i < j \<and> j < length (sels (selections ctx')) \<longrightarrow>
                      \<not> overlaps (sels (selections ctx') ! i) (sels (selections ctx') ! j))
               \<and> main_index (selections ctx') < length (sels (selections ctx'))"
    using c by (auto simp: invariant_def)
qed

text \<open>
  Witness for C1: three selections on line 0, at columns 0-2, 4-6 and 20-22, the second
  being the main one. Extending each by three columns makes the first two overlap, and
  they are merged; appending the three columns after the main selection gives a
  selection that touches it and is merged into it.
\<close>

theorem select_preserves_invariant_witness:
  "map_option selections
     (select_sequence [(Extend, example_move), (SelectMode.Append, example_move)]
        (example_context\<lparr>selections :=
           \<lparr>sels = [\<lparr>anchor = (0, 0), cursor = (0, 2), captures = []\<rparr>,
                    \<lparr>anchor = (0, 4), cursor = (0, 6), captures = []\<rparr>,
                    \<lparr>anchor = (0, 20), cursor = (0, 22), captures = []\<rparr>],
            main_index = 1\<rparr>\<rparr>))
   = Some \<lparr>sels = [\<lparr>anchor = (0, 0), cursor = (0, 12), captures = []\<rparr>,
                   \<lparr>anchor = (0, 20), cursor = (0, 25), captures = []\<rparr>],
           main_index = 0\<rparr>"
  using select_preserves_invariant
    [where ?ctx = "example_context\<lparr>selections :=
           \<lparr>sels = [\<lparr>anchor = (0, 0), cursor = (0, 2), captures = []\<rparr>,
                    \<lparr>anchor = (0, 4), cursor = (0, 6), captures = []\<rparr>,
                    \<lparr>anchor = (0, 20), cursor = (0, 22), captures = []\<rparr>],
            main_index = 1\<rparr>\<rparr>"
       and ?ops = "[(Extend, example_move), (SelectMode.Append, example_move)]"
       and ?mode = Extend and ?func = example_move]
  by (simp add: select_def select_apply_def select_each_def check_invariant_def invariant_def
        sort_and_merge_overlapping_def well_formed_def example_context_def example_move_def
        merge_with_def push_back_def set_main_index_def overlaps_def merge_union_def
        sel_min_def sel_max_def Let_def upt_rec)

subsection \<open>Paste\<close>

lemma paste_loop_eq:
  "paste_loop mode eff strings =
     (if \<exists>s \<in> set strings. ends_with_eol s then adapt_for_linewise mode else eff)"
  by (induction strings) auto

text \<open>
  C3 (as amended). One effective mode is computed per paste command and handed to the
  insertion together with all strings: if some register value ends with a newline it is
  \<open>adapt_for_linewise mode\<close>, whichever value that is and whatever follows it, otherwise
  it is the command's own mode. For the three instantiations of paste this turns Append
  into InsertAtNextLineBegin and Insert into InsertAtLineBegin, both line-oriented, and
  leaves Replace as Replace.
\<close>

theorem paste_effective_mode:
  "paste reg_values insert_sel mode ctx reg =
     insert_sel (reg_values reg ctx)
       (if \<exists>s \<in> set (reg_values reg ctx). ends_with_eol s
        then adapt_for_linewise mode else mode) ctx
   \<and> adapt_for_linewise Append = InsertAtNextLineBegin
   \<and> adapt_for_linewise Insert = InsertAtLineBegin
   \<and> adapt_for_linewise Replace = Replace
   \<and> line_oriented (adapt_for_linewise Append)
   \<and> line_oriented (adapt_for_linewise Insert)"
  by (simp add: paste_def paste_loop_eq adapt_for_linewise_def line_oriented_def)

text \<open>
  Witness for C3: pasting the register values "ab", "cd\n", "ef" in Append mode. The
  context is the log of insertions made.
\<close>

theorem paste_effective_mode_witness:
  "paste (\<lambda>r c. [''ab'', [CHR ''c'', CHR ''d'', CHR 0x0A], ''ef''])
         (\<lambda>strs m c. c @ [(strs, m)]) Append [] (CHR ''a'')
   = [([''ab'', [CHR ''c'', CHR ''d'', CHR 0x0A], ''ef''], InsertAtNextLineBegin)]"
  using paste_effective_mode
    [of "\<lambda>r c. [''ab'', [CHR ''c'', CHR ''d'', CHR 0x0A], ''ef'']"
        "\<lambda>strs m c. c @ [(strs, m)]" Append "[]" "CHR ''a''"]
  by (simp add: ends_with_eol_def)

text \<open>
  Counterexample to C3 as stated: in Replace mode a register value that ends with a
  newline does not move the insertion to a line-oriented placement; the mode stays
  Replace.
\<close>

theorem paste_replace_not_line_oriented:
  "ends_with_eol [CHR ''a'', CHR 0x0A]
   \<and> paste (\<lambda>r c. [[CHR ''a'', CHR 0x0A]]) (\<lambda>strs m c. c @ [(strs, m)]) Replace []
         (CHR ''a'')
     = [([[CHR ''a'', CHR 0x0A]], Replace)]
   \<and> \<not> line_oriented Replace"
  by (simp add: paste_def ends_with_eol_def adapt_for_linewise_def line_oriented_def)

subsection \<open>Word index query\<close>

lemma find_matching_loop_eq:
  "find_matching_loop ls match str ws res =
     res @ map fst (filter (\<lambda>word. (ls AND letters (snd word)) = ls \<and> match (fst word) str) ws)"
  by (induction ws arbitrary: res) auto

text \<open>
  C8. Under the hypothesis that a stored word can only match the query when the query's
  letter set is a subset of the word's stored letter set, \<open>find_matching\<close> returns exactly
  the stored words that the caller's predicate accepts, in the order of the map: the
  bitset filter loses no match, and a word that passes the filter but is rejected by
  the predicate is not returned.
\<close>

theorem find_matching_exact:
  assumes "\<forall>word \<in> set (m_words (update_db db)).
             match (fst word) str \<longrightarrow>
             (used_letters str AND letters (snd word)) = used_letters str"
  shows "fst (find_matching used_letters update_db db str match) =
           map fst (filter (\<lambda>word. match (fst word) str) (m_words (update_db db)))"
proof -
  have "filter (\<lambda>word. (used_letters str AND letters (snd word)) = used_letters str
                       \<and> match (fst word) str) (m_words (update_db db))
        = filter (\<lambda>word. match (fst word) str) (m_words (update_db db))"
    using assms by (intro filter_cong) auto
  then show ?thesis
    by (simp add: find_matching_def Let_def find_matching_loop_eq)
qed

text \<open>
  Witness for C8: the letters of a string are the bits \<open>c mod 64\<close> of its characters, the
  predicate is "the query is a prefix of the word", the query is "fo". The word "of" has
  the letters of the query and is rejected by the predicate; "bar" is rejected by the
  bitset filter.
\<close>

theorem find_matching_exact_witness:
  "fst (find_matching
          (\<lambda>s. fold (\<lambda>c l. l OR push_bit (of_char c mod 64 :: nat) 1) s 0)
          (\<lambda>db. db)
          \<lparr>m_timestamp = 0,
            m_words = [(''foo'', \<lparr>letters = 0x804000000000, refcount = 1\<rparr>),
                       (''of'', \<lparr>letters = 0x804000000000, refcount = 2\<rparr>),
                       (''bar'', \<lparr>letters = 0x4000600000000, refcount = 1\<rparr>),
                       (''fob'', \<lparr>letters = 0x804400000000, refcount = 1\<rparr>)]\<rparr>
          ''fo''
          (\<lambda>w q. take (length q) w = q))
   = [''foo'', ''fob'']"
  using find_matching_exact
    [of "\<lambda>db. db"
        "\<lparr>m_timestamp = 0,
            m_words = [(''foo'', \<lparr>letters = 0x804000000000, refcount = 1\<rparr>),
                       (''of'', \<lparr>letters = 0x804000000000, refcount = 2\<rparr>),
                       (''bar'', \<lparr>letters = 0x4000600000000, refcount = 1\<rparr>),
                       (''fob'', \<lparr>letters = 0x804400000000, refcount = 1\<rparr>)]\<rparr>"
        "\<lambda>w q. take (length q) w = q" "''fo''"
        "\<lambda>s. fold (\<lambda>c l. l OR push_bit (of_char c mod 64 :: nat) 1) s 0"]
  by simp

subsection \<open>The regex prompt\<close>

lemma regex_prompt_catch_not_Validate:
  "event \<noteq> Validate \<Longrightarrow> thrown (regex_prompt_catch snap event r) = None"
  by (cases "(snap, event, r)" rule: regex_prompt_catch.cases) (auto simp: Let_def)

text \<open>
  C4. An exception that leaves the \<open>try\<close> block of the prompt callback is never
  propagated while the event is Change. If it is a regex error, raised by compiling the
  pattern (\<open>RegexError\<close>) or by the regex library while matching
  (\<open>std::runtime_error\<close>), an incremental Change only turns the prompt face to the error
  face, whereas Validate throws a \<open>runtime_error\<close> "regex error: ..." at the caller. A
  pattern that does not compile raises such an error on Validate and on an incremental
  Change.
\<close>

theorem regex_prompt_error_asymmetry:
  "(event = Change \<longrightarrow>
      thrown (snd (regex_prompt_callback update rx_error func snapshot str event ctx))
        = None)
   \<and> (\<forall>e c what.
        regex_prompt_try rx_error func (update (buffer ctx) snapshot) str event ctx
          = Threw e c
        \<and> (e = RegexError what \<or> e = std_runtime_error what) \<longrightarrow>
        (event = Change \<longrightarrow>
           prompt_face (state_of (snd (regex_prompt_callback update rx_error func snapshot
                                         str event ctx))) = ErrorFace)
        \<and> (event = Validate \<longrightarrow>
             snd (regex_prompt_callback update rx_error func snapshot str event ctx)
               = Threw (runtime_error (''regex error: '' @ what)) c))
   \<and> (\<forall>what. str \<noteq> [] \<and> rx_error str = Some what
        \<and> (event = Validate \<or> event = Change \<and> incsearch ctx) \<longrightarrow>
        thrown (regex_prompt_try rx_error func (update (buffer ctx) snapshot) str event
                  ctx) = Some (RegexError what))"
  apply (intro conjI allI impI)
  subgoal by (simp add: regex_prompt_callback_def Let_def regex_prompt_catch_not_Validate)
  subgoal by (auto simp: regex_prompt_callback_def Let_def)
  subgoal by (auto simp: regex_prompt_callback_def Let_def)
  subgoal by (auto simp: regex_prompt_try_def make_regex_def Let_def)
  done

text \<open>
  Witness for C4: the pattern "(" does not compile; on Change nothing is thrown and the
  prompt shows the error face, on Validate the regex error reaches the caller.
\<close>

theorem regex_prompt_error_asymmetry_witness:
  "thrown (snd (regex_prompt_callback (\<lambda>b s. s) example_rx_error (\<lambda>ex ev c. Returned c)
                  example_selections ''('' Change example_context)) = None
   \<and> prompt_face (state_of (snd (regex_prompt_callback (\<lambda>b s. s) example_rx_error
                  (\<lambda>ex ev c. Returned c) example_selections ''('' Change example_context)))
       = ErrorFace
   \<and> thrown (snd (regex_prompt_callback (\<lambda>b s. s) example_rx_error (\<lambda>ex ev c. Returned c)
                  example_selections ''('' Validate example_context))
       = Some (runtime_error ''regex error: unmatched ('')"
  using regex_prompt_error_asymmetry
      [of Change "\<lambda>b s. s" example_rx_error "\<lambda>ex ev c. Returned c" example_selections
          "''(''" example_context]
    regex_prompt_error_asymmetry
      [of Validate "\<lambda>b s. s" example_rx_error "\<lambda>ex ev c. Returned c" example_selections
          "''(''" example_context]
  by (simp add: regex_prompt_callback_def regex_prompt_try_def make_regex_def
        example_rx_error_def example_context_def push_jump_def)

lemma regex_prompt_callback_selections_irrelevant:
  "regex_prompt_callback update rx_error func snapshot str event
     (ctx\<lparr>selections := other\<rparr>)
   = regex_prompt_callback update rx_error func snapshot str event ctx"
  by (simp add: regex_prompt_callback_def regex_prompt_try_def Let_def split: sum.splits)

lemma regex_prompt_callback_Abort:
  "snd (regex_prompt_callback update rx_error func snapshot str Abort ctx)
     = Returned ((if has_ui ctx then ctx\<lparr>info := None\<rparr> else ctx)
                  \<lparr>selections := update (buffer ctx) snapshot, prompt_face := PromptFace\<rparr>)"
  by (simp add: regex_prompt_callback_def regex_prompt_try_def Let_def)

lemma regex_prompt_callback_Change_cases:
  obtains c where
    "regex_prompt_callback update rx_error func snapshot str Change ctx
       = (update (buffer ctx) snapshot, Returned c)"
proof -
  have "thrown (snd (regex_prompt_callback update rx_error func snapshot str Change ctx))
          = None"
    by (simp add: regex_prompt_callback_def Let_def regex_prompt_catch_not_Validate)
  then obtain c where
    "snd (regex_prompt_callback update rx_error func snapshot str Change ctx) = Returned c"
    by (cases "snd (regex_prompt_callback update rx_error func snapshot str Change ctx)")
       auto
  moreover have "fst (regex_prompt_callback update rx_error func snapshot str Change ctx)
     = update (buffer ctx) snapshot"
    by (simp add: regex_prompt_callback_def Let_def)
  ultimately show thesis
    using that by (metis prod.collapse)
qed

lemma regex_prompt_events_preview_then_abort:
  assumes "\<forall>b. update b snapshot = snapshot"
  shows "fst (regex_prompt_events update rx_error func snapshot
                (map (\<lambda>s. (s, Change)) strs @ [(t, Abort)]) ctx) = snapshot
         \<and> thrown (snd (regex_prompt_events update rx_error func snapshot
                (map (\<lambda>s. (s, Change)) strs @ [(t, Abort)]) ctx)) = None
         \<and> selections (state_of (snd (regex_prompt_events update rx_error func snapshot
                (map (\<lambda>s. (s, Change)) strs @ [(t, Abort)]) ctx))) = snapshot"
proof (induction strs arbitrary: ctx)
  case Nil
  show ?case
    using assms by (simp add: regex_prompt_callback_def regex_prompt_try_def Let_def)
next
  case (Cons s strs)
  obtain c where c:
    "regex_prompt_callback update rx_error func snapshot s Change ctx
       = (update (buffer ctx) snapshot, Returned c)"
    by (rule regex_prompt_callback_Change_cases)
  show ?case
    using Cons.IH[of c] assms by (simp add: c)
qed

text \<open>
  C5. The callback restores the closure's snapshot before anything else: its result does
  not depend on the selections the context held when the event arrived (the previous
  preview), and the closure keeps the snapshot forwarded through the buffer's edits. On
  Abort nothing is thrown and the selections afterwards are exactly that forwarded
  snapshot. On an incremental Change the function is run on a context whose selections
  are the forwarded snapshot. Over a whole session of Change events ended by Abort, with
  no edit moving the snapshot, the selections at the end are the snapshot taken when the
  prompt opened, that is, the selections of the context \<open>regex_prompt\<close> was called with.
\<close>

theorem regex_prompt_restores_snapshot:
  "regex_prompt_callback update rx_error func snapshot str event
     (ctx\<lparr>selections := previous\<rparr>)
   = regex_prompt_callback update rx_error func snapshot str event ctx
   \<and> fst (regex_prompt_callback update rx_error func snapshot str event ctx)
       = update (buffer ctx) snapshot
   \<and> thrown (snd (regex_prompt_callback update rx_error func snapshot str Abort ctx))
       = None
   \<and> selections (state_of (snd (regex_prompt_callback update rx_error func snapshot str
                                  Abort ctx)))
       = update (buffer ctx) snapshot
   \<and> (str \<noteq> [] \<and> incsearch ctx \<and> rx_error str = None \<longrightarrow>
        snd (regex_prompt_callback update rx_error func snapshot str Change ctx)
        = regex_prompt_catch (update (buffer ctx) snapshot) Change
            (func (Compiled str) Change
               (ctx\<lparr>selections := update (buffer ctx) snapshot,
                        prompt_face := PromptFace\<rparr>)))
   \<and> ((\<forall>b. update b snapshot = snapshot) \<longrightarrow>
        thrown (snd (regex_prompt_events update rx_error func snapshot
                       (map (\<lambda>s. (s, Change)) strs @ [(t, Abort)]) ctx)) = None
        \<and> selections (state_of (snd (regex_prompt_events update rx_error func snapshot
                       (map (\<lambda>s. (s, Change)) strs @ [(t, Abort)]) ctx))) = snapshot)
   \<and> ((\<forall>b. update b (selections ctx) = selections ctx) \<longrightarrow>
        selections (state_of (snd (regex_prompt update rx_error func ctx
                       (map (\<lambda>s. (s, Change)) strs @ [(t, Abort)])))) = selections ctx)"
  apply (intro conjI impI)
  subgoal by (rule regex_prompt_callback_selections_irrelevant)
  subgoal by (simp add: regex_prompt_callback_def Let_def)
  subgoal by (simp add: regex_prompt_callback_Abort)
  subgoal by (simp add: regex_prompt_callback_Abort)
  subgoal by (simp add: regex_prompt_callback_def regex_prompt_try_def make_regex_def Let_def)
  subgoal using regex_prompt_events_preview_then_abort by blast
  subgoal using regex_prompt_events_preview_then_abort by blast
  subgoal
    unfolding regex_prompt_def
    using regex_prompt_events_preview_then_abort[of update "selections ctx"] by blast
  done

text \<open>
  Witness for C5: an Abort arriving while the context holds some other selection list,
  and a session of two previews of a search followed by Abort.
\<close>

theorem regex_prompt_restores_snapshot_witness:
  "selections (state_of (snd (regex_prompt_callback (\<lambda>b s. s) example_rx_error
       (with_search_register example_rx_error example_selector) example_selections ''ba''
       Abort (example_context\<lparr>selections := \<lparr>sels = [], main_index = 7\<rparr>\<rparr>))))
     = example_selections
   \<and> selections (state_of (snd (regex_prompt_events (\<lambda>b s. s) example_rx_error
       (with_search_register example_rx_error example_selector) example_selections
       (map (\<lambda>s. (s, Change)) [''b'', ''ba''] @ [(''ba'', Abort)]) example_context)))
     = example_selections
   \<and> selections (state_of (snd (regex_prompt (\<lambda>b s. s) example_rx_error
       (with_search_register example_rx_error example_selector) example_context
       (map (\<lambda>s. (s, Change)) [''b'', ''ba''] @ [(''ba'', Abort)]))))
     = example_selections"
  using regex_prompt_restores_snapshot
    [where ?update = "\<lambda>b s. s" and ?rx_error = example_rx_error
       and ?func = "with_search_register example_rx_error example_selector"
       and ?snapshot = example_selections and ?str = "''ba''" and ?event = Abort
       and ?ctx = "example_context\<lparr>selections := \<lparr>sels = [], main_index = 7\<rparr>\<rparr>"
       and ?previous = "\<lparr>sels = [], main_index = 7\<rparr>"
       and ?strs = "[''b'', ''ba'']" and ?t = "''ba''"]
    regex_prompt_restores_snapshot
    [where ?update = "\<lambda>b s. s" and ?rx_error = example_rx_error
       and ?func = "with_search_register example_rx_error example_selector"
       and ?snapshot = example_selections and ?str = "''ba''" and ?event = Abort
       and ?ctx = "example_context"
       and ?previous = "\<lparr>sels = [], main_index = 7\<rparr>"
       and ?strs = "[''b'', ''ba'']" and ?t = "''ba''"]
  by (simp add: example_context_def)


subsection \<open>The search register\<close>

lemma regex_prompt_callback_func:
  assumes "event = Validate \<or> event = Change \<and> str \<noteq> [] \<and> incsearch ctx"
  shows "snd (regex_prompt_callback update rx_error func snapshot str event ctx)
         = regex_prompt_catch (update (buffer ctx) snapshot) event
             (case (if str = [] then Inr NoRegex else make_regex rx_error str) of
                Inl e \<Rightarrow> Threw e (func_context (update (buffer ctx) snapshot) event ctx)
              | Inr regex \<Rightarrow>
                  func regex event (func_context (update (buffer ctx) snapshot) event ctx))"
  using assms
  by (auto simp: regex_prompt_callback_def regex_prompt_try_def func_context_def Let_def
           split: sum.splits)

lemma selections_func_context [simp]:
  "selections (func_context snapshot' event ctx) = snapshot'"
  by (simp add: func_context_def push_jump_def Let_def)

lemma registers_func_context [simp]:
  "registers (func_context snapshot' event ctx) = registers ctx"
  by (simp add: func_context_def push_jump_def Let_def)

lemma buffer_func_context [simp]:
  "buffer (func_context snapshot' event ctx) = buffer ctx"
  by (simp add: func_context_def push_jump_def Let_def)

lemma registers_regex_prompt_catch:
  "registers (state_of (regex_prompt_catch snap event r)) = registers (state_of r)"
  by (cases "(snap, event, r)" rule: regex_prompt_catch.cases) (auto simp: Let_def)

lemma registers_keep_func:
  "registers (state_of (keep_func regex_search matching ex event c)) = registers c"
  by (auto simp: keep_func_def set_selections_def split: sum.splits)

lemma registers_keep:
  "registers (state_of (snd (keep update rx_error regex_search matching snapshot str event ctx)))
   = registers ctx"
  by (auto simp: keep_def regex_prompt_callback_def regex_prompt_try_def Let_def
        registers_regex_prompt_catch registers_keep_func push_jump_def split: sum.splits)

lemma keep_empty_pattern:
  "snd (keep update rx_error regex_search matching snapshot [] Validate ctx)
   = Returned (func_context (update (buffer ctx) snapshot) Validate ctx)"
  by (simp add: keep_def regex_prompt_callback_func keep_func_def)

text \<open>
  C9 (as amended). For \<open>search\<close>, \<open>select_regex\<close> and \<open>split_regex\<close>, which are the
  same function of their selector: on Validate an empty pattern is replaced by the value
  of register "/" for the main selection, and the selector runs with it; a non-empty
  pattern that compiles is stored in register "/" before the selector runs with it; a
  non-empty pattern that does not compile, typed or taken from the register, is not
  stored and no selector runs: "regex error: ..." is thrown with the context as the
  prompt prepared it, so with the registers unchanged and the snapshot as its
  selections; and when the register value is empty as well, no selector runs and the
  context is left as the prompt prepared it, whether the empty pattern compiles or not.
  \<open>keep\<close> is different: validating the empty pattern returns at once with the context
  as the prompt prepared it, and no event changes the registers.
\<close>

theorem search_register_fallback:
  "(rx_error v = None \<and> v \<noteq> []
      \<and> v = main_sel_register_value (func_context (update (buffer ctx) snapshot)
                                       Validate ctx) (CHR ''/'') \<longrightarrow>
      snd (search update rx_error selector snapshot [] Validate ctx)
      = regex_prompt_catch (update (buffer ctx) snapshot) Validate
          (selector (Compiled v)
             (func_context (update (buffer ctx) snapshot) Validate ctx)))
   \<and> (str \<noteq> [] \<and> rx_error str = None \<longrightarrow>
        snd (search update rx_error selector snapshot str Validate ctx)
        = regex_prompt_catch (update (buffer ctx) snapshot) Validate
            (selector (Compiled str)
               ((func_context (update (buffer ctx) snapshot) Validate ctx)
                  \<lparr>registers := (registers ctx)(CHR ''/'' := [str])\<rparr>)))
   \<and> (str \<noteq> [] \<and> rx_error str = Some what \<longrightarrow>
        snd (search update rx_error selector snapshot str Validate ctx)
        = Threw (runtime_error (''regex error: '' @ what))
            (func_context (update (buffer ctx) snapshot) Validate ctx))
   \<and> (rx_error v = Some what \<and> v \<noteq> []
        \<and> v = main_sel_register_value (func_context (update (buffer ctx) snapshot)
                                         Validate ctx) (CHR ''/'') \<longrightarrow>
        snd (search update rx_error selector snapshot [] Validate ctx)
        = Threw (runtime_error (''regex error: '' @ what))
            (func_context (update (buffer ctx) snapshot) Validate ctx))
   \<and> registers (func_context (update (buffer ctx) snapshot) Validate ctx) = registers ctx
   \<and> selections (func_context (update (buffer ctx) snapshot) Validate ctx)
       = update (buffer ctx) snapshot
   \<and> (main_sel_register_value (func_context (update (buffer ctx) snapshot)
                                  Validate ctx) (CHR ''/'') = [] \<longrightarrow>
        state_of (snd (search update rx_error selector snapshot [] Validate ctx))
        = func_context (update (buffer ctx) snapshot) Validate ctx)
   \<and> select_regex update rx_error selector = search update rx_error selector
   \<and> split_regex update rx_error selector = search update rx_error selector
   \<and> snd (keep update rx_error regex_search matching snapshot [] Validate ctx)
       = Returned (func_context (update (buffer ctx) snapshot) Validate ctx)
   \<and> registers (state_of (snd (keep update rx_error regex_search matching snapshot str
                                  event ctx))) = registers ctx"
  apply (intro conjI impI)
  subgoal
    by (auto simp: search_def regex_prompt_callback_func with_search_register_def make_regex_def
             split: sum.splits option.splits)
  subgoal
    by (auto simp: search_def regex_prompt_callback_func with_search_register_def make_regex_def
             split: sum.splits option.splits)
  subgoal
    by (auto simp: search_def regex_prompt_callback_func make_regex_def)
  subgoal
    by (auto simp: search_def regex_prompt_callback_func with_search_register_def make_regex_def
             split: sum.splits option.splits)
  subgoal by (rule registers_func_context)
  subgoal by (rule selections_func_context)
  subgoal
    by (cases "rx_error []")
       (auto simp: search_def regex_prompt_callback_func with_search_register_def
          make_regex_def split: sum.splits option.splits)
  subgoal by (simp add: select_regex_def search_def)
  subgoal by (simp add: split_regex_def search_def)
  subgoal by (rule keep_empty_pattern)
  subgoal by (rule registers_keep)
  done

text \<open>
  Witness for C9: with "ba" in register "/", validating the empty pattern runs the
  selector with "ba"; validating "fo" stores "fo" in the register and runs the selector
  with it; validating "(", which does not compile, throws the regex error and leaves "ba"
  in the register and the selections alone, and so does validating the empty pattern
  with "(" in the register; with an empty register, validating the empty pattern leaves
  the selections alone.
\<close>

theorem search_register_fallback_witness:
  "sels (selections (state_of (snd (search (\<lambda>b s. s) example_rx_error example_selector
       example_selections [] Validate example_context))))
     = [\<lparr>anchor = (0, 1), cursor = (0, 3), captures = [''ba'']\<rparr>,
        \<lparr>anchor = (0, 5), cursor = (0, 7), captures = [''ba'']\<rparr>]
   \<and> registers (state_of (snd (search (\<lambda>b s. s) example_rx_error example_selector
       example_selections ''fo'' Validate example_context))) (CHR ''/'') = [''fo'']
   \<and> sels (selections (state_of (snd (search (\<lambda>b s. s) example_rx_error example_selector
       example_selections ''fo'' Validate example_context))))
     = [\<lparr>anchor = (0, 1), cursor = (0, 3), captures = [''fo'']\<rparr>,
        \<lparr>anchor = (0, 5), cursor = (0, 7), captures = [''fo'']\<rparr>]
   \<and> thrown (snd (search (\<lambda>b s. s) example_rx_error example_selector
       example_selections ''('' Validate example_context))
     = Some (runtime_error ''regex error: unmatched ('')
   \<and> registers (state_of (snd (search (\<lambda>b s. s) example_rx_error example_selector
       example_selections ''('' Validate example_context))) (CHR ''/'') = [''ba'']
   \<and> selections (state_of (snd (search (\<lambda>b s. s) example_rx_error example_selector
       example_selections ''('' Validate example_context))) = example_selections
   \<and> thrown (snd (search (\<lambda>b s. s) example_rx_error example_selector
       example_selections [] Validate (example_context\<lparr>registers := (\<lambda>r. [''(''])\<rparr>)))
     = Some (runtime_error ''regex error: unmatched ('')
   \<and> selections (state_of (snd (search (\<lambda>b s. s) example_rx_error example_selector
       example_selections [] Validate (example_context\<lparr>registers := (\<lambda>r. [''(''])\<rparr>))))
     = example_selections
   \<and> selections (state_of (snd (search (\<lambda>b s. s) example_rx_error example_selector
       example_selections [] Validate (example_context\<lparr>registers := (\<lambda>r. [])\<rparr>))))
     = example_selections"
  using search_register_fallback
    [where ?update = "\<lambda>b s. s" and ?rx_error = example_rx_error
       and ?selector = example_selector and ?snapshot = example_selections
       and ?ctx = example_context and ?v = "''ba''" and ?str = "''fo''"
       and ?what = "''unmatched (''"]
    search_register_fallback
    [where ?update = "\<lambda>b s. s" and ?rx_error = example_rx_error
       and ?selector = example_selector and ?snapshot = example_selections
       and ?ctx = example_context and ?v = "''ba''" and ?str = "''(''"
       and ?what = "''unmatched (''"]
    search_register_fallback
    [where ?update = "\<lambda>b s. s" and ?rx_error = example_rx_error
       and ?selector = example_selector and ?snapshot = example_selections
       and ?ctx = "example_context\<lparr>registers := (\<lambda>r. [''(''])\<rparr>" and ?v = "''(''"
       and ?str = "''fo''" and ?what = "''unmatched (''"]
    search_register_fallback
    [where ?update = "\<lambda>b s. s" and ?rx_error = example_rx_error
       and ?selector = example_selector and ?snapshot = example_selections
       and ?ctx = "example_context\<lparr>registers := (\<lambda>r. [])\<rparr>" and ?v = "''ba''"
       and ?str = "''fo''" and ?what = "''unmatched (''"]
  by (simp add: example_context_def example_selections_def example_rx_error_def
        example_selector_def main_sel_register_value_def func_context_def push_jump_def)

text \<open>
  Counterexample to C9 as stated: \<open>keep\<close> neither reads nor writes register "/". With "ba"
  in the register and a matcher that finds nothing, validating the empty pattern returns
  with the selections unchanged (with "ba" in its place, nothing would match and keep
  would fail); and validating the pattern "fo" leaves "ba" in the register.
\<close>

theorem keep_ignores_search_register:
  "thrown (snd (keep (\<lambda>b s. s) example_rx_error (\<lambda>b ex sel. Inr False) True
       example_selections [] Validate example_context)) = None
   \<and> selections (state_of (snd (keep (\<lambda>b s. s) example_rx_error (\<lambda>b ex sel. Inr False) True
       example_selections [] Validate example_context))) = example_selections
   \<and> main_sel_register_value example_context (CHR ''/'') = ''ba''
   \<and> thrown (snd (keep (\<lambda>b s. s) example_rx_error (\<lambda>b ex sel. Inr True) True
       example_selections ''fo'' Validate example_context)) = None
   \<and> registers (state_of (snd (keep (\<lambda>b s. s) example_rx_error (\<lambda>b ex sel. Inr True) True
       example_selections ''fo'' Validate example_context))) (CHR ''/'') = [''ba'']"
  by (simp add: keep_def regex_prompt_callback_def regex_prompt_try_def keep_func_def
        make_regex_def example_rx_error_def example_context_def example_selections_def
        push_jump_def main_sel_register_value_def set_selections_def Let_def)


subsection \<open>Keeping selections\<close>

lemma keep_loop_total:
  assumes "\<forall>sel \<in> set xs. regex_search sel = Inr (p sel)"
  shows "keep_loop regex_search matching xs acc
         = Inr (acc @ filter (\<lambda>sel. p sel = matching) xs)"
  using assms by (induction xs arbitrary: acc) auto

text \<open>
  C2 (as amended). On Validate, for a non-empty pattern that compiles and a matcher that
  answers for every selection: if no selection of the snapshot passes the filter, \<open>keep\<close>
  throws "no selections remaining" and the selections are the snapshot, otherwise it
  returns and the selections are exactly the filtered ones. On Validate \<open>keep_pipe\<close>
  throws "no selections remaining" with the ctx untouched when no selection passes,
  and otherwise returns with exactly the filtered selections. On any other event
  \<open>keep\<close> lets no exception out and \<open>keep_pipe\<close> does nothing; in an incremental preview
  (event Change with \<open>incsearch\<close> set) in which no selection passes the filter, the
  selections stay the snapshot.
\<close>

theorem keep_fails_when_empty:
  "(str \<noteq> [] \<and> rx_error str = None
      \<and> (\<forall>sel \<in> set (sels (update (buffer ctx) snapshot)).
            regex_search (buffer ctx) (Compiled str) sel = Inr (p sel)) \<longrightarrow>
      (filter (\<lambda>sel. p sel = matching) (sels (update (buffer ctx) snapshot)) = [] \<longrightarrow>
         thrown (snd (keep update rx_error regex_search matching snapshot str Validate
                        ctx)) = Some (runtime_error ''no selections remaining'')
         \<and> selections (state_of (snd (keep update rx_error regex_search matching snapshot
                                         str Validate ctx)))
             = update (buffer ctx) snapshot)
      \<and> (filter (\<lambda>sel. p sel = matching) (sels (update (buffer ctx) snapshot)) \<noteq> [] \<longrightarrow>
           thrown (snd (keep update rx_error regex_search matching snapshot str Validate
                          ctx)) = None
           \<and> sels (selections (state_of (snd (keep update rx_error regex_search matching
                                                 snapshot str Validate ctx))))
               = filter (\<lambda>sel. p sel = matching) (sels (update (buffer ctx) snapshot)))
      \<and> (filter (\<lambda>sel. p sel = matching) (sels (update (buffer ctx) snapshot)) = []
           \<and> incsearch ctx \<longrightarrow>
           selections (state_of (snd (keep update rx_error regex_search matching snapshot
                                        str Change ctx)))
           = update (buffer ctx) snapshot))
   \<and> (filter (\<lambda>sel. pipe_status ctx sel cmdline = 0) (sels (selections ctx)) = [] \<longrightarrow>
        keep_pipe pipe_status cmdline Validate ctx
        = Threw (runtime_error ''no selections remaining'') ctx)
   \<and> (filter (\<lambda>sel. pipe_status ctx sel cmdline = 0) (sels (selections ctx)) \<noteq> [] \<longrightarrow>
        thrown (keep_pipe pipe_status cmdline Validate ctx) = None
        \<and> sels (selections (state_of (keep_pipe pipe_status cmdline Validate ctx)))
            = filter (\<lambda>sel. pipe_status ctx sel cmdline = 0) (sels (selections ctx)))
   \<and> (event \<noteq> Validate \<longrightarrow>
        thrown (snd (keep update rx_error regex_search matching snapshot str event ctx))
          = None
        \<and> keep_pipe pipe_status cmdline event ctx = Returned ctx)"
proof (intro conjI impI)
  assume a: "str \<noteq> [] \<and> rx_error str = None
      \<and> (\<forall>sel \<in> set (sels (update (buffer ctx) snapshot)).
            regex_search (buffer ctx) (Compiled str) sel = Inr (p sel))"
  let ?snap = "update (buffer ctx) snapshot"
  let ?kept = "filter (\<lambda>sel. p sel = matching) (sels ?snap)"
  have loop: "keep_loop (regex_search (buffer ctx) (Compiled str)) matching (sels ?snap) []
        = Inr ?kept"
    using a keep_loop_total[of "sels ?snap" "regex_search (buffer ctx) (Compiled str)" p
        matching "[]"]
    by simp
  have cb: "snd (keep update rx_error regex_search matching snapshot str Validate ctx)
      = regex_prompt_catch ?snap Validate
          (keep_func regex_search matching (Compiled str) Validate
             (func_context ?snap Validate ctx))"
    using a by (simp add: keep_def regex_prompt_callback_func make_regex_def)
  {
    assume e: "?kept = [] \<and> incsearch ctx"
    have "snd (keep update rx_error regex_search matching snapshot str Change ctx)
      = regex_prompt_catch ?snap Change
          (keep_func regex_search matching (Compiled str) Change
             (func_context ?snap Change ctx))"
      using a e by (simp add: keep_def regex_prompt_callback_func make_regex_def)
    then show "selections (state_of (snd (keep update rx_error regex_search matching
                                            snapshot str Change ctx))) = ?snap"
      using e by (simp add: keep_func_def loop)
  }
  {
    assume e: "?kept = []"
    show "thrown (snd (keep update rx_error regex_search matching snapshot str Validate
                        ctx)) = Some (runtime_error ''no selections remaining'')"
      by (simp add: cb keep_func_def loop e)
    show "selections (state_of (snd (keep update rx_error regex_search matching snapshot
                                         str Validate ctx))) = ?snap"
      by (simp add: cb keep_func_def loop e)
  }
  {
    assume ne: "?kept \<noteq> []"
    show "thrown (snd (keep update rx_error regex_search matching snapshot str Validate
                          ctx)) = None"
      by (simp add: cb keep_func_def loop ne)
    show "sels (selections (state_of (snd (keep update rx_error regex_search matching
                                                 snapshot str Validate ctx)))) = ?kept"
      by (simp add: cb keep_func_def loop ne set_selections_def)
  }
next
  assume "filter (\<lambda>sel. pipe_status ctx sel cmdline = 0) (sels (selections ctx)) = []"
  then show "keep_pipe pipe_status cmdline Validate ctx
        = Threw (runtime_error ''no selections remaining'') ctx"
    by (simp add: keep_pipe_def)
next
  assume ne: "filter (\<lambda>sel. pipe_status ctx sel cmdline = 0) (sels (selections ctx)) \<noteq> []"
  then show "thrown (keep_pipe pipe_status cmdline Validate ctx) = None"
    by (simp add: keep_pipe_def Let_def)
  from ne show "sels (selections (state_of (keep_pipe pipe_status cmdline Validate ctx)))
            = filter (\<lambda>sel. pipe_status ctx sel cmdline = 0) (sels (selections ctx))"
    by (simp add: keep_pipe_def set_selections_def Let_def)
next
  assume ev: "event \<noteq> Validate"
  show "thrown (snd (keep update rx_error regex_search matching snapshot str event ctx))
          = None"
    using ev by (simp add: keep_def regex_prompt_callback_def Let_def
        regex_prompt_catch_not_Validate)
  show "keep_pipe pipe_status cmdline event ctx = Returned ctx"
    using ev by (simp add: keep_pipe_def)
qed

text \<open>
  Witness for C2: the pattern "zz" matches no selection and "ba" matches the second one;
  a shell command that fails for every selection and one that succeeds for the first.
\<close>

theorem keep_fails_when_empty_witness:
  "thrown (snd (keep (\<lambda>b s. s) example_rx_error example_regex_search True
       example_selections ''zz'' Validate example_context))
     = Some (runtime_error ''no selections remaining'')
   \<and> selections (state_of (snd (keep (\<lambda>b s. s) example_rx_error example_regex_search True
       example_selections ''zz'' Validate example_context))) = example_selections
   \<and> thrown (snd (keep (\<lambda>b s. s) example_rx_error example_regex_search True
       example_selections ''ba'' Validate example_context)) = None
   \<and> sels (selections (state_of (snd (keep (\<lambda>b s. s) example_rx_error example_regex_search
       True example_selections ''ba'' Validate example_context))))
     = [\<lparr>anchor = (0, 4), cursor = (0, 6), captures = []\<rparr>]
   \<and> thrown (keep_pipe (\<lambda>c sel cmd. 1) ''false'' Validate example_context)
     = Some (runtime_error ''no selections remaining'')
   \<and> sels (selections (state_of (keep_pipe (\<lambda>c sel cmd. if cursor sel = (0, 2) then 0 else 1)
       ''grep foo'' Validate example_context)))
     = [\<lparr>anchor = (0, 0), cursor = (0, 2), captures = []\<rparr>]
   \<and> keep_pipe (\<lambda>c sel cmd. 1) ''false'' Change example_context = Returned example_context"
  using keep_fails_when_empty
    [where ?update = "\<lambda>b s. s" and ?rx_error = example_rx_error
       and ?regex_search = example_regex_search and ?matching = True
       and ?snapshot = example_selections and ?str = "''zz''" and ?ctx = example_context
       and ?p = "\<lambda>sel. False" and ?pipe_status = "\<lambda>c sel cmd. 1" and ?cmdline = "''false''"
       and ?event = Change]
    keep_fails_when_empty
    [where ?update = "\<lambda>b s. s" and ?rx_error = example_rx_error
       and ?regex_search = example_regex_search and ?matching = True
       and ?snapshot = example_selections and ?str = "''ba''" and ?ctx = example_context
       and ?p = "\<lambda>sel. anchor sel = (0, 4)"
       and ?pipe_status = "\<lambda>c sel cmd. if cursor sel = (0, 2) then 0 else 1"
       and ?cmdline = "''grep foo''" and ?event = Change]
  by (simp add: example_rx_error_def example_regex_search_def example_context_def
        example_selections_def)

text \<open>
  Counterexample to C2 as stated: during an incremental preview (event Change with
  \<open>incsearch\<close> set) the pattern "zz" filters every selection out, yet \<open>keep\<close> throws
  nothing and the selections stay the prior set.
\<close>

theorem keep_preview_swallows_failure:
  "filter (\<lambda>sel. example_regex_search 0 (Compiled ''zz'') sel = Inr True)
       (sels example_selections) = []
   \<and> incsearch example_context
   \<and> thrown (snd (keep (\<lambda>b s. s) example_rx_error example_regex_search True
       example_selections ''zz'' Change example_context)) = None
   \<and> selections (state_of (snd (keep (\<lambda>b s. s) example_rx_error example_regex_search True
       example_selections ''zz'' Change example_context))) = example_selections"
  by (simp add: keep_def regex_prompt_callback_def regex_prompt_try_def keep_func_def
        make_regex_def example_rx_error_def example_context_def example_selections_def
        example_regex_search_def Let_def)


subsection \<open>Repeating the last search\<close>

text \<open>
  Decrementing a 32-bit integer: above the smallest value it is the decrement of the
  signed value; at the smallest value it wraps around to the largest.
\<close>

lemma sint_decrement:
  fixes c :: cpp_int
  assumes "sint c \<noteq> - (2 ^ 31)"
  shows "sint (c - 1) = sint c - 1"
proof -
  have lo: "- (2 ^ 31) \<le> sint c" and hi: "sint c < 2 ^ 31"
    using sint_ge[of c] sint_lt[of c] by simp_all
  have "sint (c - 1) = signed_take_bit 31 (sint c - 1)"
    by (simp add: sint_word_ariths)
  also have "\<dots> = sint c - 1"
    using lo hi assms by (intro signed_take_bit_int_eq_self) simp_all
  finally show ?thesis .
qed

lemma sint_decrement_min:
  fixes c :: cpp_int
  assumes "sint c = - (2 ^ 31)"
  shows "sint (c - 1) = 2 ^ 31 - 1"
proof -
  have "word_of_int (sint c) = c"
    by simp
  then have "c = word_of_int (- (2 ^ 31))"
    by (simp only: assms)
  then show ?thesis
    by simp
qed

text \<open>
  The do-while loop applies its body once, and then once more for every unit by which
  the decremented count exceeds zero.
\<close>

lemma search_next_loop_repeat:
  "search_next_loop body count ctx
   = repeat_outcome (Suc (nat (sint (count - 1)))) body ctx"
proof (induction body count ctx rule: search_next_loop.induct)
  case (1 body count ctx)
  show ?case
  proof (cases "body ctx")
    case (Threw e c)
    have "search_next_loop body count ctx = Threw e c"
      by (subst search_next_loop.simps) (simp add: Threw)
    also have "\<dots> = repeat_outcome (Suc (nat (sint (count - 1)))) body ctx"
      by (simp add: Threw)
    finally show ?thesis .
  next
    case (Returned c)
    show ?thesis
    proof (cases "0 < sint (count - 1)")
      case True
      have dec: "sint (count - 1 - 1) = sint (count - 1) - 1"
        using True by (intro sint_decrement) simp
      have "nat (sint (count - 1)) = Suc (nat (sint (count - 1) - 1))"
        using True by simp
      then have m: "nat (sint (count - 1)) = Suc (nat (sint (count - 1 - 1)))"
        by (simp only: dec)
      have "search_next_loop body count ctx = search_next_loop body (count - 1) c"
        using True by (subst search_next_loop.simps) (simp add: Returned)
      also have "\<dots> = repeat_outcome (Suc (nat (sint (count - 1 - 1)))) body c"
        using "1.IH"[OF Returned True] .
      also have "\<dots> = repeat_outcome (Suc (Suc (nat (sint (count - 1 - 1))))) body ctx"
        by (simp add: Returned)
      finally show ?thesis
        by (simp only: m)
    next
      case False
      then have m: "nat (sint (count - 1)) = 0"
        by simp
      have "search_next_loop body count ctx = Returned c"
        using False by (subst search_next_loop.simps) (simp add: Returned)
      also have "\<dots> = repeat_outcome (Suc 0) body ctx"
        by (simp add: Returned)
      finally show ?thesis
        by (simp only: m)
    qed
  qed
qed

lemma search_next_loop_above_min:
  assumes "- (2 ^ 31) < sint count"
  shows "search_next_loop body count ctx = repeat_outcome (nat (max 1 (sint count))) body ctx"
proof -
  have "sint (count - 1) = sint count - 1"
    using assms by (intro sint_decrement) simp
  then have "Suc (nat (sint (count - 1))) = nat (max 1 (sint count))"
    by simp
  then show ?thesis
    by (simp only: search_next_loop_repeat)
qed

lemma search_next_loop_at_min:
  assumes "sint count = - (2 ^ 31)"
  shows "search_next_loop body count ctx = repeat_outcome (2 ^ 31) body ctx"
proof -
  have "sint (count - 1) = 2 ^ 31 - 1"
    using assms by (rule sint_decrement_min)
  then have "Suc (nat (sint (count - 1))) = 2 ^ 31"
    by simp
  then show ?thesis
    by (simp only: search_next_loop_repeat)
qed

text \<open>
  C10 (as amended). If the value of register "/" for the main selection is empty,
  \<open>search_next\<close> throws "no search pattern" and leaves the context, and with it the
  selections, unchanged. If the value does not compile it throws "regex error: ..." with
  the context unchanged. Otherwise it applies \<open>select_next_match\<close> with the compiled
  pattern, stopping at the first exception, and turns a \<open>RegexError\<close> of the selector into
  a \<open>runtime_error\<close>: \<open>max 1 count\<close> times for every count above the smallest 32-bit
  integer, so once when the count is zero or negative; at the smallest integer the
  decrement wraps around and the selector is applied \<open>2 ^ 31\<close> times.
\<close>

theorem search_next_cases:
  "(main_sel_register_value ctx (CHR ''/'') = [] \<longrightarrow>
      search_next rx_error select_next_match ctx count
      = Threw (runtime_error ''no search pattern'') ctx)
   \<and> (main_sel_register_value ctx (CHR ''/'') \<noteq> []
        \<and> rx_error (main_sel_register_value ctx (CHR ''/'')) = Some what \<longrightarrow>
        search_next rx_error select_next_match ctx count
        = Threw (runtime_error (''regex error: '' @ what)) ctx)
   \<and> (main_sel_register_value ctx (CHR ''/'') \<noteq> []
        \<and> rx_error (main_sel_register_value ctx (CHR ''/'')) = None
        \<and> - (2 ^ 31) < sint count \<longrightarrow>
        search_next rx_error select_next_match ctx count
        = (case repeat_outcome (nat (max 1 (sint count)))
                  (select_next_match (Compiled (main_sel_register_value ctx (CHR ''/''))))
                  ctx of
             Threw (RegexError what) context' \<Rightarrow>
               Threw (runtime_error (''regex error: '' @ what)) context'
           | r \<Rightarrow> r))
   \<and> (main_sel_register_value ctx (CHR ''/'') \<noteq> []
        \<and> rx_error (main_sel_register_value ctx (CHR ''/'')) = None
        \<and> sint count = - (2 ^ 31) \<longrightarrow>
        search_next rx_error select_next_match ctx count
        = (case repeat_outcome (2 ^ 31)
                  (select_next_match (Compiled (main_sel_register_value ctx (CHR ''/''))))
                  ctx of
             Threw (RegexError what) context' \<Rightarrow>
               Threw (runtime_error (''regex error: '' @ what)) context'
           | r \<Rightarrow> r))"
proof -
  have above: "search_next_loop body count ctx
      = repeat_outcome (nat (max 1 (sint count))) body ctx"
    if "- (2 ^ 31) < sint count" for body :: "'a Context \<Rightarrow> 'a Context outcome"
    using that by (rule search_next_loop_above_min)
  have at_min: "search_next_loop body count ctx = repeat_outcome (2 ^ 31) body ctx"
    if "sint count = - (2 ^ 31)" for body :: "'a Context \<Rightarrow> 'a Context outcome"
    using that by (rule search_next_loop_at_min)
  show ?thesis
    by (simp add: search_next_def make_regex_def above at_min)
qed

text \<open>
  Witness for C10: a count of 3 applies the selector three times, and a count of -5
  once; an empty register and a register holding "(" give the two errors; the smallest
  32-bit count falls under the last case.
\<close>

theorem search_next_cases_witness:
  "sels (selections (state_of (search_next example_rx_error example_selector
       example_context 3)))
     = [\<lparr>anchor = (0, 3), cursor = (0, 5), captures = [''ba'']\<rparr>,
        \<lparr>anchor = (0, 7), cursor = (0, 9), captures = [''ba'']\<rparr>]
   \<and> sels (selections (state_of (search_next example_rx_error example_selector
       example_context (- 5))))
     = [\<lparr>anchor = (0, 1), cursor = (0, 3), captures = [''ba'']\<rparr>,
        \<lparr>anchor = (0, 5), cursor = (0, 7), captures = [''ba'']\<rparr>]
   \<and> search_next example_rx_error example_selector
       (example_context\<lparr>registers := (\<lambda>r. [])\<rparr>) 3
     = Threw (runtime_error ''no search pattern'') (example_context\<lparr>registers := (\<lambda>r. [])\<rparr>)
   \<and> search_next example_rx_error example_selector
       (example_context\<lparr>registers := (\<lambda>r. [''(''])\<rparr>) 3
     = Threw (runtime_error ''regex error: unmatched ('')
         (example_context\<lparr>registers := (\<lambda>r. [''(''])\<rparr>)
   \<and> search_next example_rx_error (\<lambda>ex c. Returned c) example_context (- (2 ^ 31))
     = (case repeat_outcome (2 ^ 31) (\<lambda>c. Returned c) example_context of
          Threw (RegexError what) context' \<Rightarrow>
            Threw (runtime_error (''regex error: '' @ what)) context'
        | r \<Rightarrow> r)"
  using search_next_cases
    [where ?rx_error = example_rx_error and ?select_next_match = example_selector
       and ?ctx = example_context and ?count = 3 and ?what = "''unmatched (''"]
    search_next_cases
    [where ?rx_error = example_rx_error and ?select_next_match = example_selector
       and ?ctx = example_context and ?count = "- 5" and ?what = "''unmatched (''"]
    search_next_cases
    [where ?rx_error = example_rx_error and ?select_next_match = example_selector
       and ?ctx = "example_context\<lparr>registers := (\<lambda>r. [])\<rparr>" and ?count = 3
       and ?what = "''unmatched (''"]
    search_next_cases
    [where ?rx_error = example_rx_error and ?select_next_match = example_selector
       and ?ctx = "example_context\<lparr>registers := (\<lambda>r. [''(''])\<rparr>" and ?count = 3
       and ?what = "''unmatched (''"]
    search_next_cases
    [where ?rx_error = example_rx_error and ?select_next_match = "\<lambda>ex c. Returned c"
       and ?ctx = example_context and ?count = "- (2 ^ 31)" and ?what = "''unmatched (''"]
  by (simp add: example_context_def example_selections_def example_rx_error_def
        example_selector_def main_sel_register_value_def numeral_3_eq_3)

text \<open>
  Counterexample to C10 as stated: with the count 0, which is what the command receives
  when no count was typed, the selector is applied once, not zero times.
\<close>

theorem search_next_count_zero_applies_once:
  "sels (selections (state_of (search_next example_rx_error example_selector
       example_context 0)))
     = [\<lparr>anchor = (0, 1), cursor = (0, 3), captures = [''ba'']\<rparr>,
        \<lparr>anchor = (0, 5), cursor = (0, 7), captures = [''ba'']\<rparr>]
   \<and> sels (selections example_context)
     = [\<lparr>anchor = (0, 0), cursor = (0, 2), captures = []\<rparr>,
        \<lparr>anchor = (0, 4), cursor = (0, 6), captures = []\<rparr>]"
  by (simp add: search_next_def make_regex_def search_next_loop.simps example_context_def
        example_selections_def example_rx_error_def example_selector_def
        main_sel_register_value_def Let_def)


subsection \<open>Undo and redo\<close>

text \<open>
  C7. When the buffer reports that a change was undone (redone): if modified ranges
  exist, the selections afterwards are \<open>avoid_eol\<close> of the selection list made of exactly
  those ranges, otherwise \<open>avoid_eol\<close> of the current selections, and the status line is
  not touched. When the buffer reports no change, the selections are untouched and the
  status line reads "nothing left to undo" ("nothing left to redo").
\<close>

theorem undo_redo_selections:
  "(fst (buffer_undo (buffer ctx)) \<longrightarrow>
      (compute_modified_ranges (snd (buffer_undo (buffer ctx)))
         (timestamp (buffer ctx)) \<noteq> [] \<longrightarrow>
       selections (undo buffer_undo timestamp compute_modified_ranges avoid_eol ctx)
       = avoid_eol (snd (buffer_undo (buffer ctx)))
           (selections (set_selections
              (compute_modified_ranges (snd (buffer_undo (buffer ctx)))
                 (timestamp (buffer ctx))) ctx)))
      \<and> (compute_modified_ranges (snd (buffer_undo (buffer ctx)))
            (timestamp (buffer ctx)) = [] \<longrightarrow>
          selections (undo buffer_undo timestamp compute_modified_ranges avoid_eol ctx)
          = avoid_eol (snd (buffer_undo (buffer ctx))) (selections ctx))
      \<and> status (undo buffer_undo timestamp compute_modified_ranges avoid_eol ctx)
          = status ctx)
   \<and> (\<not> fst (buffer_undo (buffer ctx)) \<longrightarrow>
        selections (undo buffer_undo timestamp compute_modified_ranges avoid_eol ctx)
        = selections ctx
        \<and> status (undo buffer_undo timestamp compute_modified_ranges avoid_eol ctx)
            = Some (''nothing left to undo'', InformationFace))
   \<and> (fst (buffer_redo (buffer ctx)) \<longrightarrow>
        (compute_modified_ranges (snd (buffer_redo (buffer ctx)))
           (timestamp (buffer ctx)) \<noteq> [] \<longrightarrow>
         selections (redo buffer_redo timestamp compute_modified_ranges avoid_eol ctx)
         = avoid_eol (snd (buffer_redo (buffer ctx)))
             (selections (set_selections
                (compute_modified_ranges (snd (buffer_redo (buffer ctx)))
                   (timestamp (buffer ctx))) ctx)))
        \<and> (compute_modified_ranges (snd (buffer_redo (buffer ctx)))
              (timestamp (buffer ctx)) = [] \<longrightarrow>
            selections (redo buffer_redo timestamp compute_modified_ranges avoid_eol ctx)
            = avoid_eol (snd (buffer_redo (buffer ctx))) (selections ctx))
        \<and> status (redo buffer_redo timestamp compute_modified_ranges avoid_eol ctx)
            = status ctx)
   \<and> (\<not> fst (buffer_redo (buffer ctx)) \<longrightarrow>
        selections (redo buffer_redo timestamp compute_modified_ranges avoid_eol ctx)
        = selections ctx
        \<and> status (redo buffer_redo timestamp compute_modified_ranges avoid_eol ctx)
            = Some (''nothing left to redo'', InformationFace))"
  by (simp add: undo_def redo_def set_selections_def Let_def split_beta)

text \<open>
  Witness for C7: an undo with a modified range, an undo without one, and an undo and a
  redo on a buffer that has nothing left.
\<close>

theorem undo_redo_selections_witness:
  "selections (undo example_buffer_undo (\<lambda>b. b) example_modified_ranges (\<lambda>b sl. sl)
       (example_context\<lparr>buffer := 2\<rparr>))
     = \<lparr>sels = [\<lparr>anchor = (0, 0), cursor = (0, 2), captures = []\<rparr>], main_index = 0\<rparr>
   \<and> selections (undo example_buffer_undo (\<lambda>b. b) example_modified_ranges (\<lambda>b sl. sl)
       (example_context\<lparr>buffer := 1\<rparr>)) = example_selections
   \<and> status (undo example_buffer_undo (\<lambda>b. b) example_modified_ranges (\<lambda>b sl. sl)
       (example_context\<lparr>buffer := 1\<rparr>)) = None
   \<and> selections (undo example_buffer_undo (\<lambda>b. b) example_modified_ranges (\<lambda>b sl. sl)
       example_context) = example_selections
   \<and> status (undo example_buffer_undo (\<lambda>b. b) example_modified_ranges (\<lambda>b sl. sl)
       example_context) = Some (''nothing left to undo'', InformationFace)
   \<and> status (redo example_buffer_undo (\<lambda>b. b) example_modified_ranges (\<lambda>b sl. sl)
       example_context) = Some (''nothing left to redo'', InformationFace)
   \<and> selections (redo example_buffer_undo (\<lambda>b. b) example_modified_ranges (\<lambda>b sl. sl)
       (example_context\<lparr>buffer := 2\<rparr>))
     = \<lparr>sels = [\<lparr>anchor = (0, 0), cursor = (0, 2), captures = []\<rparr>], main_index = 0\<rparr>"
  using undo_redo_selections
    [where ?buffer_undo = example_buffer_undo and ?buffer_redo = example_buffer_undo
       and ?timestamp = "\<lambda>b. b" and ?compute_modified_ranges = example_modified_ranges
       and ?avoid_eol = "\<lambda>b sl. sl" and ?ctx = "example_context\<lparr>buffer := 2\<rparr>"]
    undo_redo_selections
    [where ?buffer_undo = example_buffer_undo and ?buffer_redo = example_buffer_undo
       and ?timestamp = "\<lambda>b. b" and ?compute_modified_ranges = example_modified_ranges
       and ?avoid_eol = "\<lambda>b sl. sl" and ?ctx = "example_context\<lparr>buffer := 1\<rparr>"]
    undo_redo_selections
    [where ?buffer_undo = example_buffer_undo and ?buffer_redo = example_buffer_undo
       and ?timestamp = "\<lambda>b. b" and ?compute_modified_ranges = example_modified_ranges
       and ?avoid_eol = "\<lambda>b sl. sl" and ?ctx = example_context]
  by (simp add: example_context_def example_buffer_undo_def example_modified_ranges_def
        set_selections_def)

subsection \<open>Macro replay\<close>

lemma macro_index_less: "is_basic_alpha c \<Longrightarrow> macro_index c < 26"
  by (auto simp: is_basic_alpha_def macro_index_def tolower_def)

lemma handle_key_flags:
  assumes "\<And>count k s r. callback count k s = Some r \<Longrightarrow> running_macros s = flags \<Longrightarrow>
             running_macros (state_of r) = flags"
    and "handle_key env callback k st = Some r" and "running_macros st = flags"
  shows "running_macros (state_of r) = flags"
proof (cases "pending_replay st")
  case (Some count)
  then show ?thesis
    using assms(2,3) assms(1)[of count k "st\<lparr>pending_replay := None\<rparr>" r]
    by (simp add: handle_key_def)
next
  case None
  then show ?thesis
    using assms(2,3)
    by (auto simp: handle_key_def replay_macro_def split: if_splits outcome.splits)
qed

lemma handle_keys_flags:
  assumes "\<And>count k s r. callback count k s = Some r \<Longrightarrow> running_macros s = flags \<Longrightarrow>
             running_macros (state_of r) = flags"
    and "handle_keys env callback keys st = Some r" and "running_macros st = flags"
  shows "running_macros (state_of r) = flags"
  using assms(2,3)
proof (induction keys arbitrary: st)
  case Nil
  then show ?case by auto
next
  case (Cons k ks)
  show ?case
  proof (cases "handle_key env callback k st")
    case None
    then show ?thesis using Cons.prems by simp
  next
    case (Some r1)
    have f1: "running_macros (state_of r1) = flags"
      using assms(1) Some Cons.prems(2) by (rule handle_key_flags)
    show ?thesis
    proof (cases r1)
      case (Returned s)
      then show ?thesis
        using Cons.IH[of s] Cons.prems(1) Some f1 by simp
    next
      case (Threw e s)
      then show ?thesis
        using Cons.prems(1) Some f1 by auto
    qed
  qed
qed

lemma replay_loop_flags:
  assumes "\<And>s r. body s = Some r \<Longrightarrow> running_macros s = flags \<Longrightarrow>
             running_macros (state_of r) = flags"
    and "replay_loop body count st = Some r" and "running_macros st = flags"
  shows "running_macros (state_of r) = flags"
  using assms
proof (induction body count st rule: replay_loop.induct)
  case (1 body count s)
  note body = "1.prems"(1) and run = "1.prems"(2) and flags = "1.prems"(3)
  show ?case
  proof (cases "body s")
    case None
    then show ?thesis
      using run by (subst (asm) replay_loop.simps) simp
  next
    case (Some r1)
    have f1: "running_macros (state_of r1) = flags"
      using body[OF Some flags] .
    show ?thesis
    proof (cases r1)
      case (Threw e s')
      then show ?thesis
        using run Some f1 by (subst (asm) replay_loop.simps) auto
    next
      case (Returned s')
      show ?thesis
      proof (cases "0 < sint (count - 1)")
        case True
        have "replay_loop body (count - 1) s' = Some r"
          using run Some Returned True by (subst (asm) replay_loop.simps) simp
        then show ?thesis
          using "1.IH"[OF Some Returned True body] f1 Returned by simp
      next
        case False
        then show ?thesis
          using run Some Returned f1 by (subst (asm) replay_loop.simps) auto
      qed
    qed
  qed
qed

lemma scope_end_flags:
  "\<not> flags idx \<Longrightarrow> running_macros s = flags(idx := True) \<Longrightarrow>
   running_macros (scope_end env idx s) = flags"
  by (auto simp: scope_end_def fun_eq_iff)

lemma replay_macro_callback_flags:
  assumes "\<And>keys s r flags. exec keys s = Some r \<Longrightarrow> running_macros s = flags \<Longrightarrow>
             running_macros (state_of r) = flags"
    and "replay_macro_callback env exec count k st = Some r"
  shows "running_macros (state_of r) = running_macros st"
proof (cases "modifiers k = NoModifiers \<and> is_basic_alpha (key k)
              \<and> \<not> running_macros st (macro_index (key k))
              \<and> register_values env (tolower (key k)) (editor st) \<noteq> []")
  case False
  then show ?thesis
    using assms(2) by (auto simp: replay_macro_callback_def Let_def split: if_splits)
next
  case True
  let ?idx = "macro_index (key k)"
  let ?keys = "parse_keys env (hd (register_values env (tolower (key k)) (editor st)))"
  let ?st2 = "st\<lparr>running_macros := (running_macros st)(?idx := True),
                 editor := begin_edition env (editor st)\<rparr>"
  obtain r1 where loop: "replay_loop (exec ?keys) count ?st2 = Some r1"
    and r: "r = (case r1 of Returned s \<Rightarrow> Returned (scope_end env ?idx s)
                          | Threw e s \<Rightarrow> Threw e (scope_end env ?idx s))"
    using assms(2) True
    by (auto simp: replay_macro_callback_def Let_def split: option.splits outcome.splits)
  have "running_macros (state_of r1) = (running_macros st)(?idx := True)"
  proof (rule replay_loop_flags[OF _ loop])
    show "running_macros ?st2 = (running_macros st)(?idx := True)"
      by simp
  next
    fix s r
    assume "exec ?keys s = Some r" "running_macros s = (running_macros st)(?idx := True)"
    then show "running_macros (state_of r) = (running_macros st)(?idx := True)"
      by (rule assms(1))
  qed
  then show ?thesis
    using True r by (cases r1) (simp_all add: scope_end_flags)
qed

lemma exec_keys_flags:
  "exec_keys env fuel keys st = Some r \<Longrightarrow> running_macros (state_of r) = running_macros st"
proof (induction fuel arbitrary: keys st r)
  case 0
  then show ?case by simp
next
  case (Suc fuel)
  have cb: "\<And>count k s r flags.
      replay_macro_callback env (exec_keys env fuel) count k s = Some r \<Longrightarrow>
      running_macros s = flags \<Longrightarrow> running_macros (state_of r) = flags"
    using replay_macro_callback_flags[of "exec_keys env fuel"] Suc.IH by metis
  show ?case
    using handle_keys_flags[of "replay_macro_callback env (exec_keys env fuel)"
        "running_macros st" env keys st r] cb Suc.prems
    by simp
qed

lemma clear_flags_le: "clear_flags flags \<le> 26"
proof -
  have "{i. i < 26 \<and> \<not> flags i} \<subseteq> {..<26}"
    by auto
  then have "card {i. i < 26 \<and> \<not> flags i} \<le> card {..<(26::nat)}"
    by (intro card_mono) auto
  then show ?thesis
    by (simp add: clear_flags_def)
qed

lemma clear_flags_set:
  assumes "idx < 26" and "\<not> flags idx"
  shows "clear_flags (flags(idx := True)) < clear_flags flags"
proof -
  have "{i. i < 26 \<and> \<not> (flags(idx := True)) i} \<subset> {i. i < 26 \<and> \<not> flags i}"
    using assms by auto
  then show ?thesis
    unfolding clear_flags_def by (intro psubset_card_mono) auto
qed

lemma handle_keys_total:
  assumes "\<And>count k s r. callback count k s = Some r \<Longrightarrow> running_macros s = flags \<Longrightarrow>
             running_macros (state_of r) = flags"
    and "\<And>count k s. running_macros s = flags \<Longrightarrow> callback count k s \<noteq> None"
    and "running_macros st = flags"
  shows "handle_keys env callback keys st \<noteq> None"
  using assms(3)
proof (induction keys arbitrary: st)
  case Nil
  then show ?case by simp
next
  case (Cons k ks)
  have "handle_key env callback k st \<noteq> None"
    using assms(2)[of "st\<lparr>pending_replay := None\<rparr>"] Cons.prems
    by (auto simp: handle_key_def split: option.splits outcome.splits)
  then obtain r1 where r1: "handle_key env callback k st = Some r1"
    by auto
  have f1: "running_macros (state_of r1) = flags"
    using assms(1) r1 Cons.prems by (rule handle_key_flags)
  show ?case
    using r1 f1 Cons.IH[of "state_of r1"] by (cases r1) simp_all
qed

lemma replay_loop_total:
  assumes "\<And>s r. body s = Some r \<Longrightarrow> running_macros s = flags \<Longrightarrow>
             running_macros (state_of r) = flags"
    and "\<And>s. running_macros s = flags \<Longrightarrow> body s \<noteq> None"
    and "running_macros st = flags"
  shows "replay_loop body count st \<noteq> None"
  using assms
proof (induction body count st rule: replay_loop.induct)
  case (1 body count s)
  note keeps = "1.prems"(1) and total = "1.prems"(2) and flags = "1.prems"(3)
  obtain r1 where r1: "body s = Some r1"
    using total[OF flags] by auto
  have f1: "running_macros (state_of r1) = flags"
    using keeps[OF r1 flags] .
  show ?case
  proof (cases r1)
    case (Threw e s')
    then show ?thesis
      using r1 by (subst replay_loop.simps) simp
  next
    case (Returned s')
    show ?thesis
    proof (cases "0 < sint (count - 1)")
      case True
      have "replay_loop body (count - 1) s' \<noteq> None"
        using "1.IH"[OF r1 Returned True keeps total] f1 Returned by simp
      then show ?thesis
        using r1 Returned True by (subst replay_loop.simps) simp
    next
      case False
      then show ?thesis
        using r1 Returned by (subst replay_loop.simps) simp
    qed
  qed
qed

lemma replay_macro_callback_total:
  assumes "\<And>keys s. clear_flags (running_macros s) < fuel \<Longrightarrow>
             exec_keys env fuel keys s \<noteq> None"
    and "clear_flags (running_macros st) \<le> fuel"
  shows "replay_macro_callback env (exec_keys env fuel) count k st \<noteq> None"
proof (cases "modifiers k = NoModifiers \<and> is_basic_alpha (key k)
              \<and> \<not> running_macros st (macro_index (key k))
              \<and> register_values env (tolower (key k)) (editor st) \<noteq> []")
  case False
  then show ?thesis
    by (auto simp: replay_macro_callback_def Let_def)
next
  case True
  let ?idx = "macro_index (key k)"
  let ?flags = "(running_macros st)(?idx := True)"
  let ?keys = "parse_keys env (hd (register_values env (tolower (key k)) (editor st)))"
  let ?st2 = "st\<lparr>running_macros := ?flags, editor := begin_edition env (editor st)\<rparr>"
  have "clear_flags ?flags < clear_flags (running_macros st)"
    using True by (intro clear_flags_set macro_index_less) auto
  then have less: "clear_flags ?flags < fuel"
    using assms(2) by simp
  have "replay_loop (exec_keys env fuel ?keys) count ?st2 \<noteq> None"
  proof (rule replay_loop_total)
    show "running_macros ?st2 = ?flags"
      by simp
  next
    fix s r
    assume "exec_keys env fuel ?keys s = Some r" "running_macros s = ?flags"
    then show "running_macros (state_of r) = ?flags"
      using exec_keys_flags by metis
  next
    fix s :: "'a Editor"
    assume "running_macros s = ?flags"
    then show "exec_keys env fuel ?keys s \<noteq> None"
      using assms(1)[of s ?keys] less by simp
  qed
  then show ?thesis
    using True
    by (auto simp: replay_macro_callback_def Let_def split: option.splits outcome.splits)
qed

lemma exec_keys_total:
  "clear_flags (running_macros st) < fuel \<Longrightarrow> exec_keys env fuel keys st \<noteq> None"
proof (induction fuel arbitrary: keys st)
  case 0
  then show ?case by simp
next
  case (Suc fuel)
  have "handle_keys env (replay_macro_callback env (exec_keys env fuel)) keys st \<noteq> None"
  proof (rule handle_keys_total)
    show "running_macros st = running_macros st" ..
  next
    fix count k s r
    assume "replay_macro_callback env (exec_keys env fuel) count k s = Some r"
      "running_macros s = running_macros st"
    then show "running_macros (state_of r) = running_macros st"
      using replay_macro_callback_flags[of "exec_keys env fuel" env count k s r]
        exec_keys_flags[of env fuel]
      by metis
  next
    fix count k and s :: "'a Editor"
    assume "running_macros s = running_macros st"
    then have "clear_flags (running_macros s) \<le> fuel"
      using Suc.prems by simp
    then show "replay_macro_callback env (exec_keys env fuel) count k s \<noteq> None"
      using Suc.IH by (intro replay_macro_callback_total) auto
  qed
  then show ?case
    by simp
qed

lemma replay_macro_callback_guard:
  assumes "modifiers k = NoModifiers" and "is_basic_alpha (key k)"
    and "running_macros st (macro_index (key k))"
  shows "replay_macro_callback env exec count k st
         = Some (Threw (runtime_error ''recursive macros call detected'') st)"
  using assms by (simp add: replay_macro_callback_def Let_def)

lemma replay_macro_callback_direct:
  assumes "modifiers k = NoModifiers" and "is_basic_alpha (key k)"
    and "\<not> running_macros st (macro_index (key k))"
    and "register_values env (tolower (key k)) (editor st) = v # vs"
    and "parse_keys env v = \<lparr>modifiers = NoModifiers, key = CHR ''q''\<rparr> # k' # rest"
    and "modifiers k' = NoModifiers" and "is_basic_alpha (key k')"
    and "macro_index (key k') = macro_index (key k)"
    and "pending_replay st = None"
  shows "\<exists>s. replay_macro_callback env (exec_keys env (Suc fuel)) count k st
               = Some (Threw (runtime_error ''recursive macros call detected'') s)
             \<and> running_macros s = running_macros st"
proof -
  let ?idx = "macro_index (key k)"
  let ?st2 = "st\<lparr>running_macros := (running_macros st)(?idx := True),
                 editor := begin_edition env (editor st)\<rparr>"
  let ?q = "\<lparr>modifiers = NoModifiers, key = CHR ''q''\<rparr>"
  let ?st3 = "?st2\<lparr>prefix_count := 0\<rparr>"
  let ?cb = "replay_macro_callback env (exec_keys env fuel)"
  have q: "handle_key env ?cb ?q ?st2
           = Some (Returned (?st3\<lparr>pending_replay := Some (prefix_count st)\<rparr>))"
    using assms(9) by (simp add: handle_key_def replay_macro_def is_digit_def)
  have k': "handle_key env ?cb k' (?st3\<lparr>pending_replay := Some (prefix_count st)\<rparr>)
            = Some (Threw (runtime_error ''recursive macros call detected'') ?st3)"
    using assms(6,7,8) assms(9)
    by (simp add: handle_key_def replay_macro_callback_def Let_def)
  have "exec_keys env (Suc fuel) (?q # k' # rest) ?st2
        = Some (Threw (runtime_error ''recursive macros call detected'') ?st3)"
    by (simp add: q k')
  then have "replay_loop (exec_keys env (Suc fuel) (?q # k' # rest)) count ?st2
        = Some (Threw (runtime_error ''recursive macros call detected'') ?st3)"
    by (subst replay_loop.simps) simp
  then have "replay_macro_callback env (exec_keys env (Suc fuel)) count k st
        = Some (Threw (runtime_error ''recursive macros call detected'')
                  (scope_end env ?idx ?st3))"
    using assms(1-5) by (simp add: replay_macro_callback_def Let_def)
  moreover have "running_macros (scope_end env ?idx ?st3) = running_macros st"
    using assms(3) by (intro scope_end_flags) auto
  ultimately show ?thesis
    by blast
qed

lemma replay_loop_mono:
  assumes "\<And>s r. body s = Some r \<Longrightarrow> body' s = Some r"
    and "replay_loop body count st = Some r"
  shows "replay_loop body' count st = Some r"
  using assms
proof (induction body count st rule: replay_loop.induct)
  case (1 body count s)
  note mono = "1.prems"(1) and run = "1.prems"(2)
  have unfold: "replay_loop body count s =
      (case body s of
         None \<Rightarrow> None
       | Some (Threw e s') \<Rightarrow> Some (Threw e s')
       | Some (Returned s') \<Rightarrow>
           (if 0 < sint (count - 1) then replay_loop body (count - 1) s' else Some (Returned s')))"
    by (rule replay_loop.simps)
  have unfold': "replay_loop body' count s =
      (case body' s of
         None \<Rightarrow> None
       | Some (Threw e s') \<Rightarrow> Some (Threw e s')
       | Some (Returned s') \<Rightarrow>
           (if 0 < sint (count - 1) then replay_loop body' (count - 1) s' else Some (Returned s')))"
    by (rule replay_loop.simps)
  obtain r1 where r1: "body s = Some r1"
    using run unfold by (cases "body s") auto
  have r1': "body' s = Some r1"
    using mono[OF r1] .
  show ?case
  proof (cases r1)
    case (Threw e s')
    then show ?thesis
      using run unfold unfold' r1 r1' by auto
  next
    case (Returned s')
    show ?thesis
    proof (cases "0 < sint (count - 1)")
      case True
      have "replay_loop body (count - 1) s' = Some r"
        using run unfold r1 Returned True by simp
      then have "replay_loop body' (count - 1) s' = Some r"
        using "1.IH"[OF r1 Returned True mono] by simp
      then show ?thesis
        using unfold' r1' Returned True by simp
    next
      case False
      then show ?thesis
        using run unfold unfold' r1 r1' Returned by auto
    qed
  qed
qed

lemma replay_macro_callback_mono:
  assumes "\<And>keys s r. exec keys s = Some r \<Longrightarrow> exec' keys s = Some r"
    and "replay_macro_callback env exec count k st = Some r"
  shows "replay_macro_callback env exec' count k st = Some r"
proof (cases "modifiers k = NoModifiers \<and> is_basic_alpha (key k)
              \<and> \<not> running_macros st (macro_index (key k))
              \<and> register_values env (tolower (key k)) (editor st) \<noteq> []")
  case False
  then show ?thesis
    using assms(2) by (auto simp: replay_macro_callback_def Let_def split: if_splits)
next
  case True
  let ?idx = "macro_index (key k)"
  let ?keys = "parse_keys env (hd (register_values env (tolower (key k)) (editor st)))"
  let ?st2 = "st\<lparr>running_macros := (running_macros st)(?idx := True),
                 editor := begin_edition env (editor st)\<rparr>"
  obtain r1 where loop: "replay_loop (exec ?keys) count ?st2 = Some r1"
    using assms(2) True
    by (auto simp: replay_macro_callback_def Let_def split: option.splits)
  have "replay_loop (exec' ?keys) count ?st2 = Some r1"
  proof (rule replay_loop_mono[OF _ loop])
    fix s r
    assume "exec ?keys s = Some r"
    then show "exec' ?keys s = Some r"
      by (rule assms(1))
  qed
  then show ?thesis
    using assms(2) True loop by (simp add: replay_macro_callback_def Let_def)
qed

lemma handle_keys_mono:
  assumes "\<And>count k s r. callback count k s = Some r \<Longrightarrow> callback' count k s = Some r"
    and "handle_keys env callback keys st = Some r"
  shows "handle_keys env callback' keys st = Some r"
  using assms(2)
proof (induction keys arbitrary: st)
  case Nil
  then show ?case by simp
next
  case (Cons k ks)
  obtain r1 where r1: "handle_key env callback k st = Some r1"
    using Cons.prems by (auto split: option.splits)
  have r1': "handle_key env callback' k st = Some r1"
    using r1 assms(1)
    by (auto simp: handle_key_def split: option.splits if_splits outcome.splits)
  show ?case
    using Cons.prems Cons.IH r1 r1' by (cases r1) auto
qed

lemma exec_keys_Suc:
  "exec_keys env fuel keys st = Some r \<Longrightarrow> exec_keys env (Suc fuel) keys st = Some r"
proof (induction fuel arbitrary: keys st r)
  case 0
  then show ?case by simp
next
  case (Suc fuel)
  have "handle_keys env (replay_macro_callback env (exec_keys env (Suc fuel))) keys st = Some r"
  proof (rule handle_keys_mono)
    show "handle_keys env (replay_macro_callback env (exec_keys env fuel)) keys st = Some r"
      using Suc.prems by simp
  next
    fix count k s r
    assume cb: "replay_macro_callback env (exec_keys env fuel) count k s = Some r"
    show "replay_macro_callback env (exec_keys env (Suc fuel)) count k s = Some r"
    proof (rule replay_macro_callback_mono[OF _ cb])
      fix keys s r
      assume "exec_keys env fuel keys s = Some r"
      then show "exec_keys env (Suc fuel) keys s = Some r"
        by (rule Suc.IH)
    qed
  qed
  then show ?case
    by simp
qed

lemma exec_keys_more_fuel:
  assumes "exec_keys env fuel keys st = Some r"
  shows "exec_keys env (fuel + extra) keys st = Some r"
proof (induction extra)
  case 0
  show ?case
    using assms by simp
next
  case (Suc extra)
  have "exec_keys env (Suc (fuel + extra)) keys st = Some r"
    using Suc by (rule exec_keys_Suc)
  then show ?case
    by (simp only: add_Suc_right)
qed

lemma loop_requests_throws:
  assumes "\<And>s. reach s \<Longrightarrow> running_macros s i \<Longrightarrow> \<exists>s'. body s = Some (Threw recursion_error s')"
    and "\<And>s r. body s = Some r \<Longrightarrow> running_macros (state_of r) = running_macros s"
    and "loop_requests body reach count st" and "running_macros st i"
  shows "\<exists>s'. replay_loop body count st = Some (Threw recursion_error s')"
  using assms
proof (induction body reach count st rule: loop_requests.induct)
  case (1 body reach count s)
  note hit = "1.prems"(1) and keeps = "1.prems"(2) and req = "1.prems"(3)
    and flag = "1.prems"(4)
  show ?case
  proof (cases "reach s")
    case True
    then obtain s' where "body s = Some (Threw recursion_error s')"
      using hit flag by blast
    then show ?thesis
      by (subst replay_loop.simps) simp
  next
    case False
    then obtain s' where ret: "body s = Some (Returned s')" and pos: "0 < sint (count - 1)"
      and next_req: "loop_requests body reach (count - 1) s'"
      using req
      by (subst (asm) loop_requests.simps)
         (auto split: option.splits outcome.splits if_splits)
    have "running_macros s' i"
      using keeps[OF ret] flag by simp
    then have "\<exists>s''. replay_loop body (count - 1) s' = Some (Threw recursion_error s'')"
      using "1.IH"[OF False ret _ pos hit keeps next_req] by simp
    then show ?thesis
      using ret pos by (subst replay_loop.simps) simp
  qed
qed

lemma callback_requests_throws:
  assumes "\<And>keys s. reach keys s \<Longrightarrow> running_macros s i \<Longrightarrow>
             \<exists>s'. exec keys s = Some (Threw recursion_error s')"
    and "\<And>keys s r. exec keys s = Some r \<Longrightarrow> running_macros (state_of r) = running_macros s"
    and "callback_requests env i exec reach count k st" and "running_macros st i"
  shows "\<exists>s'. replay_macro_callback env exec count k st = Some (Threw recursion_error s')"
proof -
  let ?idx = "macro_index (key k)"
  have alpha: "modifiers k = NoModifiers" "is_basic_alpha (key k)"
    using assms(3) by (auto simp: callback_requests_def split: if_splits)
  show ?thesis
  proof (cases "running_macros st ?idx")
    case True
    then show ?thesis
      using alpha by (simp add: replay_macro_callback_guard)
  next
    case False
    then have neq: "?idx \<noteq> i"
      using assms(4) by auto
    let ?vals = "register_values env (tolower (key k)) (editor st)"
    let ?keys = "parse_keys env (hd ?vals)"
    let ?st2 = "st\<lparr>running_macros := (running_macros st)(?idx := True),
                   editor := begin_edition env (editor st)\<rparr>"
    have vals: "?vals \<noteq> []" and req: "loop_requests (exec ?keys) (reach ?keys) count ?st2"
      using assms(3) alpha False neq
      by (auto simp: callback_requests_def Let_def split: if_splits)
    have "\<exists>s'. replay_loop (exec ?keys) count ?st2 = Some (Threw recursion_error s')"
    proof (rule loop_requests_throws[OF _ _ req])
      show "running_macros ?st2 i"
        using assms(4) by simp
    next
      fix s
      assume "reach ?keys s" "running_macros s i"
      then show "\<exists>s'. exec ?keys s = Some (Threw recursion_error s')"
        by (rule assms(1))
    next
      fix s r
      assume "exec ?keys s = Some r"
      then show "running_macros (state_of r) = running_macros s"
        by (rule assms(2))
    qed
    then show ?thesis
      using alpha False vals by (auto simp: replay_macro_callback_def Let_def)
  qed
qed

lemma keys_request_throws:
  assumes "\<And>count k s. reach count k s \<Longrightarrow> running_macros s i \<Longrightarrow>
             \<exists>s'. callback count k s = Some (Threw recursion_error s')"
    and "\<And>count k s r. callback count k s = Some r \<Longrightarrow>
             running_macros (state_of r) = running_macros s"
    and "keys_request env callback reach keys st" and "running_macros st i"
  shows "\<exists>s'. handle_keys env callback keys st = Some (Threw recursion_error s')"
  using assms(3,4)
proof (induction keys arbitrary: st)
  case Nil
  then show ?case by simp
next
  case (Cons k ks)
  show ?case
  proof (cases "case pending_replay st of
                  Some count \<Rightarrow> reach count k (st\<lparr>pending_replay := None\<rparr>)
                | None \<Rightarrow> False")
    case True
    then obtain count where pending: "pending_replay st = Some count"
      and here: "reach count k (st\<lparr>pending_replay := None\<rparr>)"
      by (auto split: option.splits)
    have "running_macros (st\<lparr>pending_replay := None\<rparr>) i"
      using Cons.prems(2) by simp
    then obtain s' where "callback count k (st\<lparr>pending_replay := None\<rparr>) = Some (Threw recursion_error s')"
      using assms(1)[OF here] by blast
    then have "handle_key env callback k st = Some (Threw recursion_error s')"
      using pending by (simp add: handle_key_def)
    then show ?thesis
      by simp
  next
    case False
    then obtain s where ret: "handle_key env callback k st = Some (Returned s)"
      and rest: "keys_request env callback reach ks s"
      using Cons.prems(1) by (auto split: option.splits outcome.splits if_splits)
    have "running_macros (state_of (Returned s)) = running_macros st"
    proof (rule handle_key_flags[OF _ ret])
      show "running_macros st = running_macros st" ..
    next
      fix count k s r
      assume "callback count k s = Some r" "running_macros s = running_macros st"
      then show "running_macros (state_of r) = running_macros st"
        using assms(2) by metis
    qed
    then have "running_macros s i"
      using Cons.prems(2) by simp
    then show ?thesis
      using Cons.IH[OF rest] ret by simp
  qed
qed

lemma requests_throws:
  "requests env i fuel keys st \<Longrightarrow> running_macros st i \<Longrightarrow>
   \<exists>s'. exec_keys env fuel keys st = Some (Threw recursion_error s')"
proof (induction fuel arbitrary: keys st)
  case 0
  then show ?case by simp
next
  case (Suc fuel)
  have "\<exists>s'. handle_keys env (replay_macro_callback env (exec_keys env fuel)) keys st
             = Some (Threw recursion_error s')"
  proof (rule keys_request_throws
      [where reach = "callback_requests env i (exec_keys env fuel) (requests env i fuel)"
         and i = i])
    show "keys_request env (replay_macro_callback env (exec_keys env fuel))
            (callback_requests env i (exec_keys env fuel) (requests env i fuel)) keys st"
      using Suc.prems(1) by simp
  next
    show "running_macros st i"
      by (rule Suc.prems(2))
  next
    fix count k s r
    assume "replay_macro_callback env (exec_keys env fuel) count k s = Some r"
    then show "running_macros (state_of r) = running_macros s"
      using replay_macro_callback_flags[of "exec_keys env fuel" env count k s r]
        exec_keys_flags[of env fuel]
      by metis
  next
    fix count k s
    assume req: "callback_requests env i (exec_keys env fuel) (requests env i fuel) count k s"
      and flag: "running_macros s i"
    show "\<exists>s'. replay_macro_callback env (exec_keys env fuel) count k s = Some (Threw recursion_error s')"
    proof (rule callback_requests_throws[OF _ _ req flag])
      fix keys s
      assume "requests env i fuel keys s" "running_macros s i"
      then show "\<exists>s'. exec_keys env fuel keys s = Some (Threw recursion_error s')"
        by (rule Suc.IH)
    next
      fix keys s r
      assume "exec_keys env fuel keys s = Some r"
      then show "running_macros (state_of r) = running_macros s"
        by (rule exec_keys_flags)
    qed
  qed
  then show ?case
    by simp
qed

lemma invokes_itself_throws:
  assumes "invokes_itself env n count k st" and "n \<le> fuel"
  shows "\<exists>s. replay_macro_callback env (exec_keys env fuel) count k st
               = Some (Threw recursion_error s)
             \<and> running_macros s = running_macros st"
proof -
  let ?idx = "macro_index (key k)"
  let ?vals = "register_values env (tolower (key k)) (editor st)"
  let ?keys = "parse_keys env (hd ?vals)"
  let ?st2 = "st\<lparr>running_macros := (running_macros st)(?idx := True),
                 editor := begin_edition env (editor st)\<rparr>"
  have alpha: "modifiers k = NoModifiers \<and> is_basic_alpha (key k)"
    using assms(1) by (simp add: invokes_itself_def split: if_splits)
  have clear: "\<not> running_macros st ?idx"
    using assms(1) alpha by (simp add: invokes_itself_def Let_def split: if_splits)
  have vals: "?vals \<noteq> []"
    using assms(1) alpha clear by (simp add: invokes_itself_def Let_def split: if_splits)
  have req: "loop_requests (exec_keys env n ?keys) (requests env ?idx n ?keys) count ?st2"
    using assms(1) alpha clear vals by (simp add: invokes_itself_def Let_def)
  have "\<exists>s'. replay_loop (exec_keys env n ?keys) count ?st2
             = Some (Threw recursion_error s')"
  proof (rule loop_requests_throws[OF _ _ req])
    show "running_macros ?st2 ?idx"
      by simp
  next
    fix s
    assume "requests env ?idx n ?keys s" "running_macros s ?idx"
    then show "\<exists>s'. exec_keys env n ?keys s = Some (Threw recursion_error s')"
      by (rule requests_throws)
  next
    fix s r
    assume "exec_keys env n ?keys s = Some r"
    then show "running_macros (state_of r) = running_macros s"
      by (rule exec_keys_flags)
  qed
  then obtain s' where loop: "replay_loop (exec_keys env n ?keys) count ?st2
      = Some (Threw recursion_error s')"
    by blast
  have cb: "replay_macro_callback env (exec_keys env n) count k st
      = Some (Threw recursion_error (scope_end env ?idx s'))"
    using alpha clear vals loop by (simp add: replay_macro_callback_def Let_def)
  have more: "replay_macro_callback env (exec_keys env fuel) count k st
      = Some (Threw recursion_error (scope_end env ?idx s'))"
  proof (rule replay_macro_callback_mono[OF _ cb])
    fix keys s r
    assume "exec_keys env n keys s = Some r"
    then have "exec_keys env (n + (fuel - n)) keys s = Some r"
      by (rule exec_keys_more_fuel)
    then show "exec_keys env fuel keys s = Some r"
      using assms(2) by simp
  qed
  have "running_macros (state_of (Threw recursion_error (scope_end env ?idx s')))
      = running_macros st"
  proof (rule replay_macro_callback_flags[OF _ cb])
    fix keys s r flags
    assume "exec_keys env n keys s = Some r" "running_macros s = flags"
    then show "running_macros (state_of r) = flags"
      by (simp add: exec_keys_flags)
  qed
  then have "running_macros (scope_end env ?idx s') = running_macros st"
    by simp
  with more show ?thesis
    by blast
qed

text \<open>
  C6. A replay request for a macro whose flag is set, as it is throughout the execution
  of that macro's own keys, throws "recursive macros call detected" at once and changes
  nothing, however the keys are executed. With fuel for the 26 slots, every replay
  terminates, by return or by exception, with a result that more fuel does not change,
  and leaves the flags as it found them: each flag set on the way is cleared when its
  scope is left, on either path, so no flag is left behind to reject a later replay.
  A macro that invokes itself, directly or through any chain of other macros, at the
  start of its keys or after any number of keys, commands, nested replays and loop
  rounds that returned normally, ends with the recursion error, which no level swallows,
  and with the flags as before. In particular so does a macro whose keys start by
  replaying itself.
\<close>

theorem replay_macro_recursion_guard:
  "(modifiers k = NoModifiers \<and> is_basic_alpha (key k)
      \<and> running_macros st (macro_index (key k)) \<longrightarrow>
      replay_macro_callback env exec count k st
      = Some (Threw (runtime_error ''recursive macros call detected'') st))
   \<and> (26 \<le> fuel \<longrightarrow>
        (\<exists>r. replay_macro_callback env (exec_keys env fuel) count k st = Some r
              \<and> replay_macro_callback env (exec_keys env 26) count k st = Some r
              \<and> running_macros (state_of r) = running_macros st))
   \<and> (invokes_itself env n count k st \<and> n \<le> fuel \<longrightarrow>
        (\<exists>s. replay_macro_callback env (exec_keys env fuel) count k st
               = Some (Threw (runtime_error ''recursive macros call detected'') s)
             \<and> running_macros s = running_macros st))
   \<and> (modifiers k = NoModifiers \<and> is_basic_alpha (key k)
        \<and> \<not> running_macros st (macro_index (key k))
        \<and> register_values env (tolower (key k)) (editor st) = v # vs
        \<and> parse_keys env v = \<lparr>modifiers = NoModifiers, key = CHR ''q''\<rparr> # k' # rest
        \<and> modifiers k' = NoModifiers \<and> is_basic_alpha (key k')
        \<and> macro_index (key k') = macro_index (key k)
        \<and> pending_replay st = None \<and> 0 < fuel \<longrightarrow>
        (\<exists>s. replay_macro_callback env (exec_keys env fuel) count k st
               = Some (Threw (runtime_error ''recursive macros call detected'') s)
             \<and> running_macros s = running_macros st))"
proof (intro conjI impI)
  assume "modifiers k = NoModifiers \<and> is_basic_alpha (key k)
      \<and> running_macros st (macro_index (key k))"
  then show "replay_macro_callback env exec count k st
      = Some (Threw (runtime_error ''recursive macros call detected'') st)"
    by (simp add: replay_macro_callback_guard)
next
  assume fuel: "26 \<le> fuel"
  have "clear_flags (running_macros st) \<le> 26"
    by (rule clear_flags_le)
  then have "replay_macro_callback env (exec_keys env 26) count k st \<noteq> None"
    using exec_keys_total by (intro replay_macro_callback_total) auto
  then obtain r where r: "replay_macro_callback env (exec_keys env 26) count k st = Some r"
    by auto
  have more: "replay_macro_callback env (exec_keys env fuel) count k st = Some r"
  proof (rule replay_macro_callback_mono[OF _ r])
    fix keys s r
    assume "exec_keys env 26 keys s = Some r"
    then have "exec_keys env (26 + (fuel - 26)) keys s = Some r"
      by (rule exec_keys_more_fuel)
    then show "exec_keys env fuel keys s = Some r"
      using fuel by simp
  qed
  have "running_macros (state_of r) = running_macros st"
    using replay_macro_callback_flags[of "exec_keys env 26" env count k st r]
      exec_keys_flags[of env 26] r
    by metis
  with r more show "\<exists>r. replay_macro_callback env (exec_keys env fuel) count k st = Some r
              \<and> replay_macro_callback env (exec_keys env 26) count k st = Some r
              \<and> running_macros (state_of r) = running_macros st"
    by blast
next
  assume "invokes_itself env n count k st \<and> n \<le> fuel"
  then show "\<exists>s. replay_macro_callback env (exec_keys env fuel) count k st
               = Some (Threw (runtime_error ''recursive macros call detected'') s)
             \<and> running_macros s = running_macros st"
    using invokes_itself_throws[of env n count k st fuel] by simp
next
  assume a: "modifiers k = NoModifiers \<and> is_basic_alpha (key k)
        \<and> \<not> running_macros st (macro_index (key k))
        \<and> register_values env (tolower (key k)) (editor st) = v # vs
        \<and> parse_keys env v = \<lparr>modifiers = NoModifiers, key = CHR ''q''\<rparr> # k' # rest
        \<and> modifiers k' = NoModifiers \<and> is_basic_alpha (key k')
        \<and> macro_index (key k') = macro_index (key k)
        \<and> pending_replay st = None \<and> 0 < fuel"
  then obtain m where m: "fuel = Suc m"
    by (cases fuel) auto
  show "\<exists>s. replay_macro_callback env (exec_keys env fuel) count k st
               = Some (Threw (runtime_error ''recursive macros call detected'') s)
             \<and> running_macros s = running_macros st"
    unfolding m
    using a replay_macro_callback_direct
      [where ?k = k and ?st = st and ?env = env and ?v = v and ?vs = vs and ?k' = k'
         and ?rest = rest and ?fuel = m and ?count = count]
    by blast
qed

text \<open>
  Witness for C6. Macro "a" invokes itself in each of these register tables: "a"
  replays itself; "a" replays "b", which replays "a"; "a" rewrites itself and then
  replays itself; "a" replays "b" three times, "b" replays "c", and "c" replays "a" only
  after "d" has returned. Replaying "a" throws the recursion error in each and leaves
  the flag of "a" clear; a replay requested while the flag is set is rejected; and after
  the failed replay of the macro that rewrote itself, the next replay of "a" returns
  normally.
\<close>

theorem replay_macro_recursion_guard_witness:
  "invokes_itself example_macro_env 26 0 key_a (example_editor direct_regs)
   \<and> invokes_itself example_macro_env 26 0 key_a (example_editor transitive_regs)
   \<and> invokes_itself example_macro_env 26 0 key_a (example_editor rewriting_regs)
   \<and> invokes_itself example_macro_env 26 0 key_a (example_editor late_regs)
   \<and> (\<exists>s. replay_macro_callback example_macro_env (exec_keys example_macro_env 26) 0 key_a
             (example_editor late_regs)
           = Some (Threw (runtime_error ''recursive macros call detected'') s)
         \<and> running_macros s = running_macros (example_editor late_regs))
   \<and> (\<exists>s. replay_macro_callback example_macro_env (exec_keys example_macro_env 26) 0 key_a
             (example_editor transitive_regs)
           = Some (Threw (runtime_error ''recursive macros call detected'') s)
         \<and> running_macros s = running_macros (example_editor transitive_regs))
   \<and> (\<exists>s. replay_macro_callback example_macro_env (exec_keys example_macro_env 26) 0 key_a
             (example_editor direct_regs)
           = Some (Threw (runtime_error ''recursive macros call detected'') s)
         \<and> running_macros s = running_macros (example_editor direct_regs))
   \<and> map_option thrown
       (replay_macro_callback example_macro_env (exec_keys example_macro_env 26) 0 key_a
          (example_editor direct_regs))
     = Some (Some (runtime_error ''recursive macros call detected''))
   \<and> map_option (\<lambda>r. running_macros (state_of r) 0)
       (replay_macro_callback example_macro_env (exec_keys example_macro_env 26) 0 key_a
          (example_editor direct_regs))
     = Some False
   \<and> map_option thrown
       (replay_macro_callback example_macro_env (exec_keys example_macro_env 26) 0 key_a
          (example_editor transitive_regs))
     = Some (Some (runtime_error ''recursive macros call detected''))
   \<and> map_option thrown
       (replay_macro_callback example_macro_env (exec_keys example_macro_env 26) 0 key_a
          ((example_editor direct_regs)\<lparr>running_macros := (\<lambda>i. i = 0)\<rparr>))
     = Some (Some (runtime_error ''recursive macros call detected''))
   \<and> (case replay_macro_callback example_macro_env (exec_keys example_macro_env 26) 0 key_a
             (example_editor rewriting_regs) of
        None \<Rightarrow> False
      | Some r \<Rightarrow>
          thrown r = Some (runtime_error ''recursive macros call detected'')
          \<and> map_option thrown
                (replay_macro_callback example_macro_env (exec_keys example_macro_env 26) 0
                   key_a (state_of r))
              = Some None)"
proof -
  have direct: "invokes_itself example_macro_env 26 0 key_a (example_editor direct_regs)"
    by code_simp
  have transitive:
    "invokes_itself example_macro_env 26 0 key_a (example_editor transitive_regs)"
    by code_simp
  have rewriting:
    "invokes_itself example_macro_env 26 0 key_a (example_editor rewriting_regs)"
    by code_simp
  have late: "invokes_itself example_macro_env 26 0 key_a (example_editor late_regs)"
    by code_simp
  have evaluated:
    "map_option thrown
       (replay_macro_callback example_macro_env (exec_keys example_macro_env 26) 0 key_a
          (example_editor direct_regs))
     = Some (Some (runtime_error ''recursive macros call detected''))
     \<and> map_option (\<lambda>r. running_macros (state_of r) 0)
         (replay_macro_callback example_macro_env (exec_keys example_macro_env 26) 0 key_a
            (example_editor direct_regs))
       = Some False
     \<and> map_option thrown
         (replay_macro_callback example_macro_env (exec_keys example_macro_env 26) 0 key_a
            (example_editor transitive_regs))
       = Some (Some (runtime_error ''recursive macros call detected''))
     \<and> (case replay_macro_callback example_macro_env (exec_keys example_macro_env 26) 0 key_a
               (example_editor rewriting_regs) of
          None \<Rightarrow> False
        | Some r \<Rightarrow>
            thrown r = Some (runtime_error ''recursive macros call detected'')
            \<and> map_option thrown
                  (replay_macro_callback example_macro_env (exec_keys example_macro_env 26) 0
                     key_a (state_of r))
                = Some None)"
    by code_simp
  have rejected:
    "replay_macro_callback example_macro_env (exec_keys example_macro_env 26) 0 key_a
       ((example_editor direct_regs)\<lparr>running_macros := (\<lambda>i. i = 0)\<rparr>)
     = Some (Threw (runtime_error ''recursive macros call detected'')
               ((example_editor direct_regs)\<lparr>running_macros := (\<lambda>i. i = 0)\<rparr>))"
    using replay_macro_recursion_guard
      [where ?k = key_a
         and ?st = "(example_editor direct_regs)\<lparr>running_macros := (\<lambda>i. i = 0)\<rparr>"
         and ?env = example_macro_env and ?exec = "exec_keys example_macro_env 26"
         and ?count = 0 and ?fuel = 26 and ?n = 26 and ?v = "''qa''" and ?vs = "[]"
         and ?k' = key_a and ?rest = "[]"]
    by (simp add: key_a_def is_basic_alpha_def macro_index_def tolower_def)
  have late_throws:
    "\<exists>s. replay_macro_callback example_macro_env (exec_keys example_macro_env 26) 0 key_a
            (example_editor late_regs)
          = Some (Threw (runtime_error ''recursive macros call detected'') s)
        \<and> running_macros s = running_macros (example_editor late_regs)"
    using late replay_macro_recursion_guard
      [where ?k = key_a and ?st = "example_editor late_regs"
         and ?env = example_macro_env and ?exec = "exec_keys example_macro_env 26"
         and ?count = 0 and ?fuel = 26 and ?n = 26 and ?v = "''ij3qbk''" and ?vs = "[]"
         and ?k' = key_a and ?rest = "[]"]
    by blast
  have transitive_throws:
    "\<exists>s. replay_macro_callback example_macro_env (exec_keys example_macro_env 26) 0 key_a
            (example_editor transitive_regs)
          = Some (Threw (runtime_error ''recursive macros call detected'') s)
        \<and> running_macros s = running_macros (example_editor transitive_regs)"
    using transitive replay_macro_recursion_guard
      [where ?k = key_a and ?st = "example_editor transitive_regs"
         and ?env = example_macro_env and ?exec = "exec_keys example_macro_env 26"
         and ?count = 0 and ?fuel = 26 and ?n = 26 and ?v = "''iqb''" and ?vs = "[]"
         and ?k' = key_a and ?rest = "[]"]
    by blast
  have direct_throws:
    "\<exists>s. replay_macro_callback example_macro_env (exec_keys example_macro_env 26) 0 key_a
            (example_editor direct_regs)
          = Some (Threw (runtime_error ''recursive macros call detected'') s)
        \<and> running_macros s = running_macros (example_editor direct_regs)"
    using replay_macro_recursion_guard
      [where ?k = key_a and ?st = "example_editor direct_regs"
         and ?env = example_macro_env and ?exec = "exec_keys example_macro_env 26"
         and ?count = 0 and ?fuel = 26 and ?n = 0 and ?v = "''qa''" and ?vs = "[]"
         and ?k' = key_a and ?rest = "[]"]
    by (simp add: key_a_def is_basic_alpha_def macro_index_def tolower_def
          example_macro_env_def example_editor_def direct_regs_def plain_keys_def
          invokes_itself_def loop_requests.simps)
  show ?thesis
    using evaluated direct transitive rewriting late late_throws transitive_throws
      direct_throws
    by (simp add: rejected)
qed

end
